theory Spec2Isabelle
  imports Complex_Main "HOL-Library.Word" "HOL-Library.Signed_Division" "HOL-Library.Multiset"
begin

unbundle bit_operations_syntax

section \<open>C numbers\<close>

text \<open>
  A C \<^verbatim>\<open>float\<close> is modelled as an exact real number or one of the three special
  values of IEEE 754. Arithmetic on finite values is exact: rounding, overflow to
  infinity and underflow are not modelled, and a zero carries no sign (a division of a
  non-zero value by zero gives the infinity with the sign of the dividend). The special
  values follow IEEE 754: every comparison with a NaN is false, a division by zero is
  an infinity, and so on. A C \<^verbatim>\<open>int\<close> is an unbounded integer. The rounding of
  single precision is added in a section of its own, for the first part of
  \<^verbatim>\<open>par_bluenoise_generate\<close>, where it decides how many points of the root tile are
  tested.
\<close>

datatype cfloat = Fin real | PInf | NInf | NaN

definition of_cint :: "int \<Rightarrow> cfloat" where
  "of_cint n = Fin (of_int n)"

fun fl_neg :: "cfloat \<Rightarrow> cfloat" where
  "fl_neg (Fin a) = Fin (- a)"
| "fl_neg PInf = NInf"
| "fl_neg NInf = PInf"
| "fl_neg NaN = NaN"

fun fl_add :: "cfloat \<Rightarrow> cfloat \<Rightarrow> cfloat" where
  "fl_add NaN b = NaN"
| "fl_add a NaN = NaN"
| "fl_add (Fin a) (Fin b) = Fin (a + b)"
| "fl_add PInf NInf = NaN"
| "fl_add NInf PInf = NaN"
| "fl_add PInf b = PInf"
| "fl_add a PInf = PInf"
| "fl_add NInf b = NInf"
| "fl_add a NInf = NInf"

definition fl_sub :: "cfloat \<Rightarrow> cfloat \<Rightarrow> cfloat" where
  "fl_sub a b = fl_add a (fl_neg b)"

fun fl_mul :: "cfloat \<Rightarrow> cfloat \<Rightarrow> cfloat" where
  "fl_mul NaN b = NaN"
| "fl_mul a NaN = NaN"
| "fl_mul (Fin a) (Fin b) = Fin (a * b)"
| "fl_mul PInf (Fin b) = (if b = 0 then NaN else if 0 < b then PInf else NInf)"
| "fl_mul NInf (Fin b) = (if b = 0 then NaN else if 0 < b then NInf else PInf)"
| "fl_mul (Fin a) PInf = (if a = 0 then NaN else if 0 < a then PInf else NInf)"
| "fl_mul (Fin a) NInf = (if a = 0 then NaN else if 0 < a then NInf else PInf)"
| "fl_mul PInf PInf = PInf"
| "fl_mul PInf NInf = NInf"
| "fl_mul NInf PInf = NInf"
| "fl_mul NInf NInf = PInf"

fun fl_div :: "cfloat \<Rightarrow> cfloat \<Rightarrow> cfloat" where
  "fl_div NaN b = NaN"
| "fl_div a NaN = NaN"
| "fl_div (Fin a) (Fin b) =
     (if b = 0 then (if a = 0 then NaN else if 0 < a then PInf else NInf)
      else Fin (a / b))"
| "fl_div (Fin a) b = Fin 0"
| "fl_div PInf (Fin b) = (if 0 \<le> b then PInf else NInf)"
| "fl_div NInf (Fin b) = (if 0 \<le> b then NInf else PInf)"
| "fl_div a b = NaN"

text \<open>The comparisons \<^verbatim>\<open><\<close>, \<^verbatim>\<open>></\<close> and \<^verbatim>\<open><=\<close> of C.\<close>

fun fl_lt :: "cfloat \<Rightarrow> cfloat \<Rightarrow> bool" where
  "fl_lt NaN b = False"
| "fl_lt a NaN = False"
| "fl_lt (Fin a) (Fin b) = (a < b)"
| "fl_lt a NInf = False"
| "fl_lt PInf b = False"
| "fl_lt a b = True"

definition fl_gt :: "cfloat \<Rightarrow> cfloat \<Rightarrow> bool" where
  "fl_gt a b = fl_lt b a"

fun fl_le :: "cfloat \<Rightarrow> cfloat \<Rightarrow> bool" where
  "fl_le NaN b = False"
| "fl_le a NaN = False"
| "fl_le (Fin a) (Fin b) = (a \<le> b)"
| "fl_le NInf b = True"
| "fl_le a PInf = True"
| "fl_le a b = False"

text \<open>
  \<^verbatim>\<open>powf(x, n)\<close> for an exponent that is an integer, the only use the program makes
  of it. The cases are those of C99, Annex F.9.4.4.
\<close>

definition powf :: "cfloat \<Rightarrow> int \<Rightarrow> cfloat" where
  "powf x n =
     (if n = 0 then Fin 1
      else case x of
        NaN \<Rightarrow> NaN
      | Fin a \<Rightarrow>
          (if 0 < n then Fin (a ^ nat n)
           else if a = 0 then PInf
           else Fin (1 / a ^ nat (- n)))
      | PInf \<Rightarrow> (if 0 < n then PInf else Fin 0)
      | NInf \<Rightarrow> (if 0 < n then (if even n then PInf else NInf) else Fin 0))"

text \<open>
  The conversion \<^verbatim>\<open>(int) f\<close> truncates towards zero. It is undefined behaviour for a
  NaN, an infinity and a value outside the range of a 32-bit \<^verbatim>\<open>int\<close>: \<open>None\<close>.
\<close>

definition trunc :: "real \<Rightarrow> int" where
  "trunc r = (if 0 \<le> r then \<lfloor>r\<rfloor> else \<lceil>r\<rceil>)"

definition float_to_int :: "cfloat \<Rightarrow> int option" where
  "float_to_int f =
     (case f of
        Fin r \<Rightarrow>
          (if - 2147483648 \<le> trunc r \<and> trunc r \<le> 2147483647 then Some (trunc r) else None)
      | _ \<Rightarrow> None)"


section \<open>The macros\<close>

text \<open>
  \<^verbatim>\<open>clamp(x, min, max)\<close> is \<^verbatim>\<open>((x < min) ? min : ((x > max) ? max : x))\<close>, used on floats
  and on ints; \<^verbatim>\<open>mini(a, b)\<close> is \<^verbatim>\<open>((a < b) ? a : b)\<close>, used with an int and a float (the
  int is converted and the result is a float); \<^verbatim>\<open>maxi(a, b)\<close> is \<^verbatim>\<open>((a > b) ? a : b)\<close>,
  used on ints.
\<close>

definition clampf :: "cfloat \<Rightarrow> cfloat \<Rightarrow> cfloat \<Rightarrow> cfloat" where
  "clampf x lo hi = (if fl_lt x lo then lo else if fl_gt x hi then hi else x)"

definition clampi :: "int \<Rightarrow> int \<Rightarrow> int \<Rightarrow> int" where
  "clampi x lo hi = (if x < lo then lo else if x > hi then hi else x)"

definition mini :: "int \<Rightarrow> cfloat \<Rightarrow> cfloat" where
  "mini a b = (if fl_lt (of_cint a) b then of_cint a else b)"

definition maxi :: "int \<Rightarrow> int \<Rightarrow> int" where
  "maxi a b = (if a > b then a else b)"

section \<open>The data model\<close>

text \<open>
  The structs of \<^verbatim>\<open>bluenoise.c\<close>. The fields keep their names behind a prefix that
  tells the structs apart (\<^verbatim>\<open>tile->npoints\<close> is \<open>tile_npoints\<close>, \<^verbatim>\<open>ctx->npoints\<close> is
  \<open>ctx_npoints\<close>); \<^verbatim>\<open>par_vec3\<close> extends \<^verbatim>\<open>par_vec2\<close> by the rank. An array is a list, and
  every access is checked against its length. The node of the traversal holds the index
  of its tile in \<^verbatim>\<open>ctx->tiles\<close> where the source holds a pointer to that element; the
  linked list of children is a list of nodes.
\<close>

datatype error = OutOfFuel | BufferOverflow | OutOfBounds | FloatToInt | AssertionFailed

record par_vec2 =
  vx :: cfloat
  vy :: cfloat

record par_vec3 = par_vec2 +
  rank :: cfloat

record par_tile =
  tile_n :: int
  tile_e :: int
  tile_s :: int
  tile_w :: int
  tile_nsubtiles :: int
  tile_nsubdivs :: int
  tile_npoints :: int
  tile_nsubpts :: int
  tile_subdivs :: "int list list"
  tile_points :: "par_vec2 list"
  tile_subpts :: "par_vec2 list"

record par_node =
  node_tile :: int
  node_x :: cfloat
  node_y :: cfloat
  node_level :: int

record par_bluenoise_context =
  ctx_points :: "par_vec3 list"
  ctx_tiles :: "par_tile list"
  ctx_global_density :: cfloat
  ctx_left :: cfloat
  ctx_bottom :: cfloat
  ctx_right :: cfloat
  ctx_top :: cfloat
  ctx_ntiles :: int
  ctx_nsubtiles :: int
  ctx_nsubdivs :: int
  ctx_npoints :: nat
  ctx_maxpoints :: int
  ctx_density_width :: int
  ctx_density_height :: int
  ctx_density :: "cfloat list option"
  ctx_mag :: cfloat

text \<open>\<^verbatim>\<open>a[i]\<close> for an int \<open>i\<close>: outside the array it is undefined behaviour.\<close>

definition index :: "'a list \<Rightarrow> int \<Rightarrow> error + 'a" where
  "index xs i = (if 0 \<le> i \<and> i < int (length xs) then Inr (xs ! nat i) else Inl OutOfBounds)"

section \<open>Sampling the density\<close>

definition sample_density :: "par_bluenoise_context \<Rightarrow> cfloat \<Rightarrow> cfloat \<Rightarrow> error + cfloat" where
  "sample_density ctx x y =
     (case ctx_density ctx of
        None \<Rightarrow> Inr (Fin 1)
      | Some density \<Rightarrow>
          (let width = ctx_density_width ctx;
               height = ctx_density_height ctx;
               y = fl_sub (Fin 1) y;
               x = fl_sub x (Fin (1 / 2));
               y = fl_sub y (Fin (1 / 2));
               tx = fl_mul x (of_cint (maxi width height));
               ty = fl_mul y (of_cint (maxi width height));
               tx = fl_add tx (of_cint (width sdiv 2));
               ty = fl_add ty (of_cint (height sdiv 2))
           in case float_to_int tx of
                None \<Rightarrow> Inl FloatToInt
              | Some itx \<Rightarrow>
                  (case float_to_int ty of
                     None \<Rightarrow> Inl FloatToInt
                   | Some ity \<Rightarrow>
                       (let ix = clampi itx 0 (width - 2);
                            iy = clampi ity 0 (height - 2)
                        in index density (iy * width + ix)))))"

section \<open>The sampler\<close>

text \<open>
  The four statements that both loops end with: the point is written at
  \<^verbatim>\<open>ctx->points[ctx->npoints]\<close> with its coordinates moved back by one half, and the count
  goes up. Nothing in the source compares the count with the capacity of the buffer; a
  write past its end is the error \<open>BufferOverflow\<close>.
\<close>

definition store_point :: "par_bluenoise_context \<Rightarrow> cfloat \<Rightarrow> cfloat \<Rightarrow> cfloat \<Rightarrow> error + par_bluenoise_context" where
  "store_point ctx px py r =
     (if ctx_npoints ctx < length (ctx_points ctx)
      then Inr (ctx\<lparr>ctx_points := (ctx_points ctx)
                       [ctx_npoints ctx := \<lparr>vx = fl_sub px (Fin (1 / 2)), vy = fl_sub py (Fin (1 / 2)), rank = r\<rparr>],
                    ctx_npoints := ctx_npoints ctx + 1\<rparr>)
      else Inl BufferOverflow)"

definition outside :: "par_bluenoise_context \<Rightarrow> cfloat \<Rightarrow> cfloat \<Rightarrow> bool" where
  "outside ctx px py =
     (fl_lt px (ctx_left ctx) \<or> fl_gt px (ctx_right ctx) \<or> fl_lt py (ctx_bottom ctx) \<or> fl_gt py (ctx_top ctx))"

text \<open>The loop over the candidate sub-points of a tile, in \<^verbatim>\<open>apply_tile\<close>.\<close>

function tile_loop ::
  "par_bluenoise_context \<Rightarrow> par_tile \<Rightarrow> cfloat \<Rightarrow> cfloat \<Rightarrow> int \<Rightarrow> cfloat \<Rightarrow> cfloat \<Rightarrow> int \<Rightarrow> int
     \<Rightarrow> error + par_bluenoise_context" where
  "tile_loop ctx tile x y level tileSize factor ntests i =
     (if i < ntests then
        (case index (tile_subpts tile) i of
           Inl e \<Rightarrow> Inl e
         | Inr sp \<Rightarrow>
             (let px = fl_add x (fl_mul (vx sp) tileSize);
                  py = fl_add y (fl_mul (vy sp) tileSize)
              in if outside ctx px py
                 then tile_loop ctx tile x y level tileSize factor ntests (i + 1)
                 else (case sample_density ctx px py of
                         Inl e \<Rightarrow> Inl e
                       | Inr d \<Rightarrow>
                           if fl_lt d (fl_mul (of_cint (i + tile_npoints tile)) factor)
                           then tile_loop ctx tile x y level tileSize factor ntests (i + 1)
                           else (case store_point ctx px py
                                        (fl_add (of_cint (level + 1)) (fl_mul (of_cint i) factor)) of
                                   Inl e \<Rightarrow> Inl e
                                 | Inr ctx' \<Rightarrow>
                                     tile_loop ctx' tile x y level tileSize factor ntests (i + 1)))))
      else Inr ctx)"
  by pat_completeness auto
termination
  by (relation "measure (\<lambda>(ctx, tile, x, y, level, tileSize, factor, ntests, i). nat (ntests - i))") auto

text \<open>
  The two nested loops that allocate the children, in the order of the list the source
  links them into; \<open>nsubtiles\<close> is \<^verbatim>\<open>ctx->nsubtiles\<close>. The child's tile is
  \<^verbatim>\<open>&ctx->tiles[tileIndex]\<close>: the index is stored and looked up when the child is visited.
\<close>

function children_row ::
  "int \<Rightarrow> par_tile \<Rightarrow> cfloat \<Rightarrow> cfloat \<Rightarrow> int \<Rightarrow> cfloat \<Rightarrow> int \<Rightarrow> int \<Rightarrow> error + par_node list" where
  "children_row nsubtiles tile x y level scale ty tx =
     (if tx < nsubtiles then
        (case index (tile_subdivs tile) 0 of
           Inl e \<Rightarrow> Inl e
         | Inr subdiv \<Rightarrow>
             (case index subdiv (ty * nsubtiles + tx) of
                Inl e \<Rightarrow> Inl e
              | Inr tileIndex \<Rightarrow>
                  (let child = \<lparr>node_tile = tileIndex,
                                node_x = fl_add x (fl_mul (of_cint tx) scale),
                                node_y = fl_add y (fl_mul (of_cint ty) scale),
                                node_level = level\<rparr>
                   in case children_row nsubtiles tile x y level scale ty (tx + 1) of
                        Inl e \<Rightarrow> Inl e
                      | Inr rest \<Rightarrow> Inr (child # rest))))
      else Inr [])"
  by pat_completeness auto
termination
  by (relation "measure (\<lambda>(nsubtiles, tile, x, y, level, scale, ty, tx). nat (nsubtiles - tx))") auto

function children_rows ::
  "int \<Rightarrow> par_tile \<Rightarrow> cfloat \<Rightarrow> cfloat \<Rightarrow> int \<Rightarrow> cfloat \<Rightarrow> int \<Rightarrow> error + par_node list" where
  "children_rows nsubtiles tile x y level scale ty =
     (if ty < nsubtiles then
        (case children_row nsubtiles tile x y level scale ty 0 of
           Inl e \<Rightarrow> Inl e
         | Inr row \<Rightarrow>
             (case children_rows nsubtiles tile x y level scale (ty + 1) of
                Inl e \<Rightarrow> Inl e
              | Inr rest \<Rightarrow> Inr (row @ rest)))
      else Inr [])"
  by pat_completeness auto
termination
  by (relation "measure (\<lambda>(nsubtiles, tile, x, y, level, scale, ty). nat (nsubtiles - ty))") auto

text \<open>
  The locals \<^verbatim>\<open>tileSize\<close>, \<^verbatim>\<open>depth\<close>, \<^verbatim>\<open>threshold\<close>, \<^verbatim>\<open>factor\<close> and \<^verbatim>\<open>scale\<close> of
  \<^verbatim>\<open>apply_tile\<close>, as functions of the context, the level of the node and its tile. The
  locals \<^verbatim>\<open>left\<close>, \<^verbatim>\<open>right\<close>, \<^verbatim>\<open>top\<close>, \<^verbatim>\<open>bottom\<close> and \<^verbatim>\<open>mag\<close> are copies of the fields of
  the context, which \<^verbatim>\<open>apply_tile\<close> does not change.
\<close>

definition tile_size :: "par_bluenoise_context \<Rightarrow> int \<Rightarrow> cfloat" where
  "tile_size ctx level = fl_div (Fin 1) (powf (of_cint (ctx_nsubtiles ctx)) level)"

definition tile_depth :: "par_bluenoise_context \<Rightarrow> int \<Rightarrow> cfloat" where
  "tile_depth ctx level = powf (of_cint (ctx_nsubtiles ctx)) (2 * level)"

definition tile_threshold :: "par_bluenoise_context \<Rightarrow> par_tile \<Rightarrow> int \<Rightarrow> cfloat" where
  "tile_threshold ctx tile level =
     fl_sub (fl_mul (fl_div (ctx_mag ctx) (tile_depth ctx level)) (ctx_global_density ctx))
       (of_cint (tile_npoints tile))"

definition tile_factor :: "par_bluenoise_context \<Rightarrow> int \<Rightarrow> cfloat" where
  "tile_factor ctx level =
     fl_div (fl_mul (fl_div (Fin 1) (ctx_mag ctx)) (tile_depth ctx level)) (ctx_global_density ctx)"

definition tile_scale :: "par_bluenoise_context \<Rightarrow> int \<Rightarrow> cfloat" where
  "tile_scale ctx level = fl_div (tile_size ctx level) (of_cint (ctx_nsubtiles ctx))"

text \<open>The test that lets \<^verbatim>\<open>apply_tile\<close> return at once: the tile misses the viewport.\<close>

definition misses_viewport :: "par_bluenoise_context \<Rightarrow> par_node \<Rightarrow> bool" where
  "misses_viewport ctx node =
     (let x = node_x node; y = node_y node; tileSize = tile_size ctx (node_level node)
      in fl_lt (fl_add x tileSize) (ctx_left ctx) \<or> fl_gt x (ctx_right ctx) \<or>
         fl_lt (fl_add y tileSize) (ctx_bottom ctx) \<or> fl_gt y (ctx_top ctx))"

text \<open>The number of tests and the loop over the candidates of the node.\<close>

definition tile_pass :: "par_bluenoise_context \<Rightarrow> par_node \<Rightarrow> par_tile \<Rightarrow> error + par_bluenoise_context" where
  "tile_pass ctx node tile =
     (let level = node_level node
      in case float_to_int (mini (tile_nsubpts tile) (tile_threshold ctx tile level)) of
           None \<Rightarrow> Inl FloatToInt
         | Some ntests \<Rightarrow>
             tile_loop ctx tile (node_x node) (node_y node) level (tile_size ctx level)
               (tile_factor ctx level) ntests 0)"

text \<open>The children of the node, one level down.\<close>

definition spawn_children :: "par_bluenoise_context \<Rightarrow> par_node \<Rightarrow> par_tile \<Rightarrow> error + par_node list" where
  "spawn_children ctx node tile =
     children_rows (ctx_nsubtiles ctx) tile (node_x node) (node_y node) (node_level node + 1)
       (tile_scale ctx (node_level node)) 0"

text \<open>
  \<^verbatim>\<open>apply_tile\<close> calls itself on every child, to a depth that nothing in the source
  bounds. The first argument is the number of nested calls that are left; a call that
  needs more is \<open>OutOfFuel\<close>, which stands for the recursion that does not return.
  \<open>apply_children\<close> is the \<^verbatim>\<open>while (node)\<close> loop over the children.
\<close>

fun apply_tile :: "nat \<Rightarrow> par_bluenoise_context \<Rightarrow> par_node \<Rightarrow> error + par_bluenoise_context"
  and apply_children :: "nat \<Rightarrow> par_bluenoise_context \<Rightarrow> par_node list \<Rightarrow> error + par_bluenoise_context" where
  "apply_tile 0 ctx node = Inl OutOfFuel"
| "apply_tile (Suc fuel) ctx node =
     (if misses_viewport ctx node then Inr ctx
      else (case index (ctx_tiles ctx) (node_tile node) of
              Inl e \<Rightarrow> Inl e
            | Inr tile \<Rightarrow>
                (case tile_pass ctx node tile of
                   Inl e \<Rightarrow> Inl e
                 | Inr ctx' \<Rightarrow>
                     if fl_le (tile_threshold ctx tile (node_level node)) (of_cint (tile_nsubpts tile))
                     then Inr ctx'
                     else (case spawn_children ctx' node tile of
                             Inl e \<Rightarrow> Inl e
                           | Inr children \<Rightarrow> apply_children fuel ctx' children))))"
| "apply_children fuel ctx [] = Inr ctx"
| "apply_children fuel ctx (node # rest) =
     (case apply_tile fuel ctx node of
        Inl e \<Rightarrow> Inl e
      | Inr ctx' \<Rightarrow> apply_children fuel ctx' rest)"

text \<open>The loop over the points of the root tile, in \<^verbatim>\<open>par_bluenoise_generate\<close>.\<close>

function root_loop ::
  "par_bluenoise_context \<Rightarrow> par_tile \<Rightarrow> cfloat \<Rightarrow> int \<Rightarrow> int \<Rightarrow> error + par_bluenoise_context" where
  "root_loop ctx tile0 factor ntests i =
     (if i < ntests then
        (case index (tile_points tile0) i of
           Inl e \<Rightarrow> Inl e
         | Inr p \<Rightarrow>
             (let px = vx p; py = vy p
              in if outside ctx px py
                 then root_loop ctx tile0 factor ntests (i + 1)
                 else (case sample_density ctx px py of
                         Inl e \<Rightarrow> Inl e
                       | Inr d \<Rightarrow>
                           if fl_lt d (fl_mul (of_cint (i + 1)) factor)
                           then root_loop ctx tile0 factor ntests (i + 1)
                           else (case store_point ctx px py (fl_mul (of_cint i) factor) of
                                   Inl e \<Rightarrow> Inl e
                                 | Inr ctx' \<Rightarrow> root_loop ctx' tile0 factor ntests (i + 1)))))
      else Inr ctx)"
  by pat_completeness auto
termination
  by (relation "measure (\<lambda>(ctx, tile0, factor, ntests, i). nat (ntests - i))") auto

text \<open>
  \<^verbatim>\<open>par_bluenoise_generate\<close> in its three parts. \<open>set_viewport\<close> is the assignments up to
  the clamping: the density and the count, the viewport moved by one half, the
  magnification from the viewport before it is clamped, and the viewport clamped.
  The parameters \<^verbatim>\<open>left\<close>, \<^verbatim>\<open>bottom\<close>, \<^verbatim>\<open>right\<close> and \<^verbatim>\<open>top\<close> are \<open>vleft\<close>, \<open>vbottom\<close>,
  \<open>vright\<close> and \<open>vtop\<close>.
\<close>

definition set_viewport ::
  "par_bluenoise_context \<Rightarrow> cfloat \<Rightarrow> cfloat \<Rightarrow> cfloat \<Rightarrow> cfloat \<Rightarrow> cfloat \<Rightarrow> par_bluenoise_context" where
  "set_viewport ctx density vleft vbottom vright vtop =
     (let ctx = ctx\<lparr>ctx_global_density := density, ctx_npoints := 0\<rparr>;
          vleft = fl_add vleft (Fin (1 / 2));
          vright = fl_add vright (Fin (1 / 2));
          vbottom = fl_add vbottom (Fin (1 / 2));
          vtop = fl_add vtop (Fin (1 / 2));
          mag = powf (fl_sub vtop vbottom) (- 2);
          vleft = clampf vleft (Fin 0) (Fin 1);
          vright = clampf vright (Fin 0) (Fin 1);
          vbottom = clampf vbottom (Fin 0) (Fin 1);
          vtop = clampf vtop (Fin 0) (Fin 1)
      in ctx\<lparr>ctx_left := vleft, ctx_right := vright, ctx_bottom := vbottom, ctx_top := vtop,
              ctx_mag := mag\<rparr>)"

text \<open>The root pass: the number of tests, the factor and the loop over the root tile.\<close>

definition root_factor :: "par_bluenoise_context \<Rightarrow> cfloat" where
  "root_factor ctx = fl_div (fl_div (Fin 1) (ctx_mag ctx)) (ctx_global_density ctx)"

definition root_pass :: "par_bluenoise_context \<Rightarrow> error + par_bluenoise_context" where
  "root_pass ctx =
     (case index (ctx_tiles ctx) 0 of
        Inl e \<Rightarrow> Inl e
      | Inr tile0 \<Rightarrow>
          (case float_to_int (mini (tile_npoints tile0) (fl_mul (ctx_mag ctx) (ctx_global_density ctx))) of
             None \<Rightarrow> Inl FloatToInt
           | Some ntests \<Rightarrow> root_loop ctx tile0 (root_factor ctx) ntests 0))"

text \<open>The root of the traversal: \<^verbatim>\<open>par_node root = {0}\<close> with the first tile.\<close>

definition root_node :: par_node where
  "root_node = \<lparr>node_tile = 0, node_x = Fin 0, node_y = Fin 0, node_level = 0\<rparr>"

text \<open>
  The result is the context: \<^verbatim>\<open>*npts\<close> is its \<open>ctx_npoints\<close> and the returned pointer is
  its \<open>ctx_points\<close>. The first argument is the fuel of \<open>apply_tile\<close>. \<open>generated\<close> is what the
  caller sees of the result, the first \<^verbatim>\<open>*npts\<close> elements of the buffer.
\<close>

definition par_bluenoise_generate ::
  "nat \<Rightarrow> par_bluenoise_context \<Rightarrow> cfloat \<Rightarrow> cfloat \<Rightarrow> cfloat \<Rightarrow> cfloat \<Rightarrow> cfloat
     \<Rightarrow> error + par_bluenoise_context" where
  "par_bluenoise_generate fuel ctx density vleft vbottom vright vtop =
     (case root_pass (set_viewport ctx density vleft vbottom vright vtop) of
        Inl e \<Rightarrow> Inl e
      | Inr ctx' \<Rightarrow> apply_tile fuel ctx' root_node)"

definition generated :: "par_bluenoise_context \<Rightarrow> par_vec3 list" where
  "generated ctx = take (ctx_npoints ctx) (ctx_points ctx)"

section \<open>Sorting by rank\<close>

definition cmp :: "par_vec3 \<Rightarrow> par_vec3 \<Rightarrow> int" where
  "cmp v1 v2 = (if fl_lt (rank v1) (rank v2) then - 1 else if fl_gt (rank v1) (rank v2) then 1 else 0)"

text \<open>
  \<^verbatim>\<open>qsort\<close> is the C library's: it sorts by the comparison function and leaves the order
  of elements that compare equal open. It is modelled as the insertion sort that the
  comparison function drives, which keeps the order of equal elements.
\<close>

fun qsort_insert :: "('a \<Rightarrow> 'a \<Rightarrow> int) \<Rightarrow> 'a \<Rightarrow> 'a list \<Rightarrow> 'a list" where
  "qsort_insert c v [] = [v]"
| "qsort_insert c v (w # ws) = (if c v w \<le> 0 then v # w # ws else w # qsort_insert c v ws)"

fun qsort :: "('a \<Rightarrow> 'a \<Rightarrow> int) \<Rightarrow> 'a list \<Rightarrow> 'a list" where
  "qsort c [] = []"
| "qsort c (v # vs) = qsort_insert c v (qsort c vs)"

function rank_loop :: "par_vec3 list \<Rightarrow> int \<Rightarrow> int \<Rightarrow> error + par_vec3 list" where
  "rank_loop vecs npts i =
     (if i < npts then
        (case index vecs i of
           Inl e \<Rightarrow> Inl e
         | Inr v \<Rightarrow> rank_loop (vecs[nat i := v\<lparr>rank := of_cint i\<rparr>]) npts (i + 1))
      else Inr vecs)"
  by pat_completeness auto
termination
  by (relation "measure (\<lambda>(vecs, npts, i). nat (npts - i))") auto

text \<open>
  \<^verbatim>\<open>par_bluenoise_sort_by_rank\<close> sorts the first \<^verbatim>\<open>npts\<close> elements of the array in place. A
  count that is negative or beyond the array is an access outside it.
\<close>

definition par_bluenoise_sort_by_rank :: "par_vec3 list \<Rightarrow> int \<Rightarrow> error + par_vec3 list" where
  "par_bluenoise_sort_by_rank floats npts =
     (if npts < 0 \<or> int (length floats) < npts then Inl OutOfBounds
      else (let vecs = qsort cmp (take (nat npts) floats) @ drop (nat npts) floats
            in rank_loop vecs npts 0))"

section \<open>Building the density\<close>

text \<open>
  The pixels are an array of bytes, and the pointer that walks it is an offset into the
  array. The density array is the list of the values the loops write, one for each
  pixel; for a negative width or height the source writes nothing.
\<close>

type_synonym byte = "8 word"

function gray_row :: "byte list \<Rightarrow> int \<Rightarrow> int \<Rightarrow> int \<Rightarrow> int \<Rightarrow> error + (cfloat list \<times> int)" where
  "gray_row pixels width bpp off i =
     (if i < width then
        (case index pixels off of
           Inl e \<Rightarrow> Inl e
         | Inr b \<Rightarrow>
             (case gray_row pixels width bpp (off + bpp) (i + 1) of
                Inl e \<Rightarrow> Inl e
              | Inr (rest, off') \<Rightarrow>
                  Inr (fl_sub (Fin 1) (fl_mul (of_cint (uint b)) (Fin (1 / 255))) # rest, off')))
      else Inr ([], off))"
  by pat_completeness auto
termination
  by (relation "measure (\<lambda>(pixels, width, bpp, off, i). nat (width - i))") auto

function gray_rows :: "byte list \<Rightarrow> int \<Rightarrow> int \<Rightarrow> int \<Rightarrow> int \<Rightarrow> int \<Rightarrow> error + cfloat list" where
  "gray_rows pixels width height bpp off j =
     (if j < height then
        (case gray_row pixels width bpp off 0 of
           Inl e \<Rightarrow> Inl e
         | Inr (row, off') \<Rightarrow>
             (case gray_rows pixels width height bpp off' (j + 1) of
                Inl e \<Rightarrow> Inl e
              | Inr rest \<Rightarrow> Inr (row @ rest)))
      else Inr [])"
  by pat_completeness auto
termination
  by (relation "measure (\<lambda>(pixels, width, height, bpp, off, j). nat (height - j))") auto

definition par_bluenoise_density_from_gray ::
  "par_bluenoise_context \<Rightarrow> byte list \<Rightarrow> int \<Rightarrow> int \<Rightarrow> int \<Rightarrow> error + par_bluenoise_context" where
  "par_bluenoise_density_from_gray ctx pixels width height bpp =
     (case gray_rows pixels width height bpp 0 0 of
        Inl e \<Rightarrow> Inl e
      | Inr dst \<Rightarrow>
          Inr (ctx\<lparr>ctx_density_width := width, ctx_density_height := height, ctx_density := Some dst\<rparr>))"

text \<open>
  \<^verbatim>\<open>*((unsigned int*) pixels)\<close> reads four bytes at the pointer, whatever the stride is.
  The bytes are put together in little-endian order, the order in which the mask of the
  source keeps the first \<^verbatim>\<open>bpp\<close> bytes of the pixel.
\<close>

definition read_uint :: "byte list \<Rightarrow> int \<Rightarrow> error + 32 word" where
  "read_uint pixels off =
     (if 0 \<le> off \<and> off + 4 \<le> int (length pixels)
      then Inr (ucast (pixels ! nat off)
                OR push_bit 8 (ucast (pixels ! nat (off + 1)))
                OR push_bit 16 (ucast (pixels ! nat (off + 2)))
                OR push_bit 24 (ucast (pixels ! nat (off + 3))))
      else Inl OutOfBounds)"

function color_row ::
  "byte list \<Rightarrow> int \<Rightarrow> int \<Rightarrow> 32 word \<Rightarrow> 32 word \<Rightarrow> int \<Rightarrow> int \<Rightarrow> int \<Rightarrow> error + (cfloat list \<times> int)" where
  "color_row pixels width bpp msk bkgd invert off i =
     (if i < width then
        (case read_uint pixels off of
           Inl e \<Rightarrow> Inl e
         | Inr w \<Rightarrow>
             (let val = w AND msk;
                  d = (if invert \<noteq> 0 then (if val = bkgd then 1 else 0) else (if val \<noteq> bkgd then 1 else 0))
              in case color_row pixels width bpp msk bkgd invert (off + bpp) (i + 1) of
                   Inl e \<Rightarrow> Inl e
                 | Inr (rest, off') \<Rightarrow> Inr (of_cint d # rest, off')))
      else Inr ([], off))"
  by pat_completeness auto
termination
  by (relation "measure (\<lambda>(pixels, width, bpp, msk, bkgd, invert, off, i). nat (width - i))") auto

function color_rows ::
  "byte list \<Rightarrow> int \<Rightarrow> int \<Rightarrow> int \<Rightarrow> 32 word \<Rightarrow> 32 word \<Rightarrow> int \<Rightarrow> int \<Rightarrow> int \<Rightarrow> error + cfloat list" where
  "color_rows pixels width height bpp msk bkgd invert off j =
     (if j < height then
        (case color_row pixels width bpp msk bkgd invert off 0 of
           Inl e \<Rightarrow> Inl e
         | Inr (row, off') \<Rightarrow>
             (case color_rows pixels width height bpp msk bkgd invert off' (j + 1) of
                Inl e \<Rightarrow> Inl e
              | Inr rest \<Rightarrow> Inr (row @ rest)))
      else Inr [])"
  by pat_completeness auto
termination
  by (relation "measure (\<lambda>(pixels, width, height, bpp, msk, bkgd, invert, off, j). nat (height - j))") auto

text \<open>
  \<^verbatim>\<open>par_bluenoise_density_from_color\<close>. The \<^verbatim>\<open>assert(bpp <= 4)\<close> stands between the
  computation of the mask (\<open>msk\<close>) and the loops; a failed assertion is \<open>AssertionFailed\<close>.
\<close>

definition color_mask :: "int \<Rightarrow> 32 word" where
  "color_mask bpp =
     (let msk = 0x000000ff;
          msk = (if bpp > 1 then msk OR 0x0000ff00 else msk);
          msk = (if bpp > 2 then msk OR 0x00ff0000 else msk);
          msk = (if bpp > 3 then msk OR 0xff000000 else msk)
      in msk)"

definition par_bluenoise_density_from_color ::
  "par_bluenoise_context \<Rightarrow> byte list \<Rightarrow> int \<Rightarrow> int \<Rightarrow> int \<Rightarrow> 32 word \<Rightarrow> int
     \<Rightarrow> error + par_bluenoise_context" where
  "par_bluenoise_density_from_color ctx pixels width height bpp background_color invert =
     (let bkgd = background_color;
          msk = color_mask bpp
      in if \<not> bpp \<le> 4 then Inl AssertionFailed
         else (case color_rows pixels width height bpp msk bkgd invert 0 0 of
                 Inl e \<Rightarrow> Inl e
               | Inr dst \<Rightarrow>
                   Inr (ctx\<lparr>ctx_density_width := width, ctx_density_height := height,
                            ctx_density := Some dst\<rparr>)))"


section \<open>The scenario of the specification\<close>

text \<open>
  One tile, one subtile per axis, one subdivision; the root tile has four points and no
  sub-point; no density is attached; the buffer has room for four points.
\<close>

definition scenario_tile :: par_tile where
  "scenario_tile =
     \<lparr>tile_n = 0, tile_e = 0, tile_s = 0, tile_w = 0, tile_nsubtiles = 0, tile_nsubdivs = 0,
      tile_npoints = 4, tile_nsubpts = 0, tile_subdivs = [[0]],
      tile_points = [\<lparr>vx = Fin (1 / 10), vy = Fin (1 / 10)\<rparr>, \<lparr>vx = Fin (3 / 10), vy = Fin (3 / 10)\<rparr>,
                     \<lparr>vx = Fin (6 / 10), vy = Fin (6 / 10)\<rparr>, \<lparr>vx = Fin (9 / 10), vy = Fin (9 / 10)\<rparr>],
      tile_subpts = []\<rparr>"

definition origin3 :: par_vec3 where
  "origin3 = \<lparr>vx = Fin 0, vy = Fin 0, rank = Fin 0\<rparr>"

definition scenario_ctx :: par_bluenoise_context where
  "scenario_ctx =
     \<lparr>ctx_points = [origin3, origin3, origin3, origin3], ctx_tiles = [scenario_tile],
      ctx_global_density = Fin 0, ctx_left = Fin 0, ctx_bottom = Fin 0, ctx_right = Fin 0,
      ctx_top = Fin 0, ctx_ntiles = 1, ctx_nsubtiles = 1, ctx_nsubdivs = 1, ctx_npoints = 0,
      ctx_maxpoints = 4, ctx_density_width = 0, ctx_density_height = 0, ctx_density = None,
      ctx_mag = Fin 0\<rparr>"

definition scenario_points :: "par_vec3 list" where
  "scenario_points =
     [\<lparr>vx = Fin (- (4 / 10)), vy = Fin (- (4 / 10)), rank = Fin 0\<rparr>,
      \<lparr>vx = Fin (- (2 / 10)), vy = Fin (- (2 / 10)), rank = Fin (1 / 4)\<rparr>,
      \<lparr>vx = Fin (1 / 10), vy = Fin (1 / 10), rank = Fin (1 / 2)\<rparr>,
      \<lparr>vx = Fin (4 / 10), vy = Fin (4 / 10), rank = Fin (3 / 4)\<rparr>]"

definition scenario_result :: par_bluenoise_context where
  "scenario_result =
     scenario_ctx\<lparr>ctx_points := scenario_points, ctx_global_density := Fin 4, ctx_left := Fin 0,
       ctx_bottom := Fin 0, ctx_right := Fin 1, ctx_top := Fin 1, ctx_npoints := 4, ctx_mag := Fin 1\<rparr>"

section \<open>What a run writes\<close>

text \<open>
  The points a run writes into the buffer, as a list that does not depend on the buffer:
  \<open>collect\<close> gathers the points that the body of a loop accepts, \<open>root_candidate\<close> and
  \<open>tile_candidate\<close> are the bodies of the two loops without the write, and \<open>node_emits\<close>
  follows \<open>apply_tile\<close>. A run succeeds exactly when these lists exist and fit into the
  buffer, and it then holds them (\<open>generate_iff\<close> below).
\<close>

definition fits :: "par_bluenoise_context \<Rightarrow> par_vec3 list \<Rightarrow> bool" where
  "fits ctx ps = (ctx_npoints ctx + length ps \<le> length (ctx_points ctx))"

definition append_points :: "par_bluenoise_context \<Rightarrow> par_vec3 list \<Rightarrow> par_bluenoise_context" where
  "append_points ctx ps =
     ctx\<lparr>ctx_points := take (ctx_npoints ctx) (ctx_points ctx) @ ps @
                         drop (ctx_npoints ctx + length ps) (ctx_points ctx),
         ctx_npoints := ctx_npoints ctx + length ps\<rparr>"

definition moved :: "cfloat \<Rightarrow> cfloat \<Rightarrow> cfloat \<Rightarrow> par_vec3" where
  "moved px py r = \<lparr>vx = fl_sub px (Fin (1 / 2)), vy = fl_sub py (Fin (1 / 2)), rank = r\<rparr>"

definition root_candidate ::
  "par_bluenoise_context \<Rightarrow> par_tile \<Rightarrow> cfloat \<Rightarrow> int \<Rightarrow> error + par_vec3 option" where
  "root_candidate ctx tile0 factor i =
     (case index (tile_points tile0) i of
        Inl e \<Rightarrow> Inl e
      | Inr p \<Rightarrow>
          if outside ctx (vx p) (vy p) then Inr None
          else (case sample_density ctx (vx p) (vy p) of
                  Inl e \<Rightarrow> Inl e
                | Inr d \<Rightarrow>
                    if fl_lt d (fl_mul (of_cint (i + 1)) factor) then Inr None
                    else Inr (Some (moved (vx p) (vy p) (fl_mul (of_cint i) factor)))))"

definition tile_candidate ::
  "par_bluenoise_context \<Rightarrow> par_tile \<Rightarrow> cfloat \<Rightarrow> cfloat \<Rightarrow> int \<Rightarrow> cfloat \<Rightarrow> cfloat \<Rightarrow> int
     \<Rightarrow> error + par_vec3 option" where
  "tile_candidate ctx tile x y level tileSize factor i =
     (case index (tile_subpts tile) i of
        Inl e \<Rightarrow> Inl e
      | Inr sp \<Rightarrow>
          (let px = fl_add x (fl_mul (vx sp) tileSize);
               py = fl_add y (fl_mul (vy sp) tileSize)
           in if outside ctx px py then Inr None
              else (case sample_density ctx px py of
                      Inl e \<Rightarrow> Inl e
                    | Inr d \<Rightarrow>
                        if fl_lt d (fl_mul (of_cint (i + tile_npoints tile)) factor) then Inr None
                        else Inr (Some (moved px py
                                         (fl_add (of_cint (level + 1)) (fl_mul (of_cint i) factor)))))))"

function collect :: "(int \<Rightarrow> error + 'a option) \<Rightarrow> int \<Rightarrow> int \<Rightarrow> error + 'a list" where
  "collect f n i =
     (if i < n then
        (case f i of
           Inl e \<Rightarrow> Inl e
         | Inr r \<Rightarrow>
             (case collect f n (i + 1) of
                Inl e \<Rightarrow> Inl e
              | Inr rest \<Rightarrow> Inr (case r of None \<Rightarrow> rest | Some p \<Rightarrow> p # rest)))
      else Inr [])"
  by pat_completeness auto
termination
  by (relation "measure (\<lambda>(f, n, i). nat (n - i))") auto

definition root_emits :: "par_bluenoise_context \<Rightarrow> error + par_vec3 list" where
  "root_emits ctx =
     (case index (ctx_tiles ctx) 0 of
        Inl e \<Rightarrow> Inl e
      | Inr tile0 \<Rightarrow>
          (case float_to_int (mini (tile_npoints tile0) (fl_mul (ctx_mag ctx) (ctx_global_density ctx))) of
             None \<Rightarrow> Inl FloatToInt
           | Some ntests \<Rightarrow> collect (root_candidate ctx tile0 (root_factor ctx)) ntests 0))"

definition tile_emits :: "par_bluenoise_context \<Rightarrow> par_node \<Rightarrow> par_tile \<Rightarrow> error + par_vec3 list" where
  "tile_emits ctx node tile =
     (let level = node_level node
      in case float_to_int (mini (tile_nsubpts tile) (tile_threshold ctx tile level)) of
           None \<Rightarrow> Inl FloatToInt
         | Some ntests \<Rightarrow>
             collect (tile_candidate ctx tile (node_x node) (node_y node) level (tile_size ctx level)
                        (tile_factor ctx level)) ntests 0)"

fun node_emits :: "nat \<Rightarrow> par_bluenoise_context \<Rightarrow> par_node \<Rightarrow> error + par_vec3 list"
  and children_emits :: "nat \<Rightarrow> par_bluenoise_context \<Rightarrow> par_node list \<Rightarrow> error + par_vec3 list" where
  "node_emits 0 ctx node = Inl OutOfFuel"
| "node_emits (Suc fuel) ctx node =
     (if misses_viewport ctx node then Inr []
      else (case index (ctx_tiles ctx) (node_tile node) of
              Inl e \<Rightarrow> Inl e
            | Inr tile \<Rightarrow>
                (case tile_emits ctx node tile of
                   Inl e \<Rightarrow> Inl e
                 | Inr ps \<Rightarrow>
                     if fl_le (tile_threshold ctx tile (node_level node)) (of_cint (tile_nsubpts tile))
                     then Inr ps
                     else (case spawn_children ctx node tile of
                             Inl e \<Rightarrow> Inl e
                           | Inr children \<Rightarrow>
                               (case children_emits fuel ctx children of
                                  Inl e \<Rightarrow> Inl e
                                | Inr qs \<Rightarrow> Inr (ps @ qs))))))"
| "children_emits fuel ctx [] = Inr []"
| "children_emits fuel ctx (node # rest) =
     (case node_emits fuel ctx node of
        Inl e \<Rightarrow> Inl e
      | Inr ps \<Rightarrow>
          (case children_emits fuel ctx rest of
             Inl e \<Rightarrow> Inl e
           | Inr qs \<Rightarrow> Inr (ps @ qs)))"

definition generate_emits :: "nat \<Rightarrow> par_bluenoise_context \<Rightarrow> error + par_vec3 list" where
  "generate_emits fuel ctx =
     (case root_emits ctx of
        Inl e \<Rightarrow> Inl e
      | Inr ps \<Rightarrow>
          (case node_emits fuel ctx root_node of
             Inl e \<Rightarrow> Inl e
           | Inr qs \<Rightarrow> Inr (ps @ qs)))"

section \<open>A second scene: four subtiles\<close>

text \<open>
  One tile that subdivides into four copies of itself, with one point and two sub-points;
  the buffer has room for eight points. \<open>flat_ctx\<close> is the same context with no subtile
  per axis, so that no node has children.
\<close>

definition quad_tile :: par_tile where
  "quad_tile =
     \<lparr>tile_n = 0, tile_e = 0, tile_s = 0, tile_w = 0, tile_nsubtiles = 0, tile_nsubdivs = 0,
      tile_npoints = 1, tile_nsubpts = 2, tile_subdivs = [[0, 0, 0, 0]],
      tile_points = [\<lparr>vx = Fin (1 / 2), vy = Fin (1 / 2)\<rparr>],
      tile_subpts = [\<lparr>vx = Fin (1 / 4), vy = Fin (1 / 4)\<rparr>, \<lparr>vx = Fin (3 / 4), vy = Fin (3 / 4)\<rparr>]\<rparr>"

definition quad_ctx :: par_bluenoise_context where
  "quad_ctx =
     \<lparr>ctx_points = [origin3, origin3, origin3, origin3, origin3, origin3, origin3, origin3],
      ctx_tiles = [quad_tile],
      ctx_global_density = Fin 0, ctx_left = Fin 0, ctx_bottom = Fin 0, ctx_right = Fin 0,
      ctx_top = Fin 0, ctx_ntiles = 1, ctx_nsubtiles = 2, ctx_nsubdivs = 1, ctx_npoints = 0,
      ctx_maxpoints = 8, ctx_density_width = 0, ctx_density_height = 0, ctx_density = None,
      ctx_mag = Fin 0\<rparr>"

definition flat_ctx :: par_bluenoise_context where
  "flat_ctx = quad_ctx\<lparr>ctx_nsubtiles := 0\<rparr>"

section \<open>Predicates of the statements\<close>

text \<open>
  \<open>tiles_without_nan\<close>: no coordinate of the tile set is a NaN. \<open>within_viewport\<close>: the
  point lies in the rectangle the context holds, the viewport moved and clamped.
  \<open>viewport_finite\<close> and \<open>node_ok\<close> hold of every context and node that
  \<^verbatim>\<open>par_bluenoise_generate\<close> reaches from arguments that are no NaN. \<open>child_node\<close> is the
  child that the loops of \<^verbatim>\<open>apply_tile\<close> make for the column \<open>tx\<close> of the row \<open>ty\<close>.
\<close>

definition child_node :: "int \<Rightarrow> par_tile \<Rightarrow> cfloat \<Rightarrow> cfloat \<Rightarrow> int \<Rightarrow> cfloat \<Rightarrow> int \<Rightarrow> int \<Rightarrow> par_node" where
  "child_node nsubtiles tile x y level scale ty tx =
     \<lparr>node_tile = (tile_subdivs tile ! 0) ! nat (ty * nsubtiles + tx),
      node_x = fl_add x (fl_mul (of_cint tx) scale),
      node_y = fl_add y (fl_mul (of_cint ty) scale),
      node_level = level\<rparr>"

definition tiles_without_nan :: "par_bluenoise_context \<Rightarrow> bool" where
  "tiles_without_nan ctx =
     (\<forall>t \<in> set (ctx_tiles ctx). \<forall>p \<in> set (tile_points t) \<union> set (tile_subpts t). vx p \<noteq> NaN \<and> vy p \<noteq> NaN)"

definition within_viewport :: "par_bluenoise_context \<Rightarrow> cfloat \<Rightarrow> cfloat \<Rightarrow> bool" where
  "within_viewport ctx px py =
     (fl_le (ctx_left ctx) px \<and> fl_le px (ctx_right ctx) \<and> fl_le (ctx_bottom ctx) py \<and> fl_le py (ctx_top ctx))"

definition viewport_finite :: "par_bluenoise_context \<Rightarrow> bool" where
  "viewport_finite ctx =
     ((\<exists>a. ctx_left ctx = Fin a) \<and> (\<exists>a. ctx_right ctx = Fin a) \<and>
      (\<exists>a. ctx_bottom ctx = Fin a) \<and> (\<exists>a. ctx_top ctx = Fin a))"

definition node_ok :: "par_bluenoise_context \<Rightarrow> par_node \<Rightarrow> bool" where
  "node_ok ctx node =
     ((\<exists>a. node_x node = Fin a) \<and> (\<exists>a. node_y node = Fin a) \<and> 0 \<le> node_level node \<and>
      (node_level node = 0 \<or> 1 \<le> ctx_nsubtiles ctx))"

text \<open>
  \<open>new_points\<close>: the points that a pass has added to the result. \<open>quad_view\<close> is the second
  scene after \<^verbatim>\<open>generate(8, -0.5, -0.5, 0.5, 0.5)\<close> has set the viewport, and \<open>quad_child\<close>
  the first child of its root.
\<close>

definition new_points :: "par_bluenoise_context \<Rightarrow> par_bluenoise_context \<Rightarrow> par_vec3 list" where
  "new_points ctx ctx' = drop (ctx_npoints ctx) (generated ctx')"



text \<open>The scenario with the density of a grey image of one black pixel attached.\<close>

definition one_pixel_ctx :: par_bluenoise_context where
  "one_pixel_ctx = scenario_ctx\<lparr>ctx_density_width := 1, ctx_density_height := 1, ctx_density := Some [Fin 1]\<rparr>"

section \<open>The root pass in the words of the specification\<close>

text \<open>
  \<open>density_in_unit\<close>: every value of the attached density is a number that is at most 1,
  as both builders make them. \<open>unit_clamp\<close> is the nearest value of the interval from 0 to 1,
  and \<open>clamp01\<close> that of a bound of the viewport moved by one half.
  \<open>spec_root_pass\<close> is step 2 of the generation as the
  specification writes it: with \<open>mag\<close> the power \<open>-2\<close> of the height of the viewport
  before clamping, \<open>threshold = min(count, mag * density)\<close> a number that need not be whole
  and \<open>step = 1 / (mag * density)\<close>, the point \<open>i\<close> of the root tile, for every whole
  \<open>i\<close> from 0 below the threshold, is accepted if it lies within the clamped viewport and
  the density sampled at it is at least \<open>(i + 1) * step\<close>, and it gets the rank
  \<open>i * step\<close>.
\<close>

definition density_in_unit :: "par_bluenoise_context \<Rightarrow> bool" where
  "density_in_unit ctx =
     (case ctx_density ctx of
        None \<Rightarrow> True
      | Some density \<Rightarrow> (\<forall>v \<in> set density. case v of Fin s \<Rightarrow> s \<le> 1 | _ \<Rightarrow> False))"

definition unit_clamp :: "cfloat \<Rightarrow> cfloat" where
  "unit_clamp v = (case v of Fin a \<Rightarrow> Fin (max 0 (min 1 a)) | PInf \<Rightarrow> Fin 1 | NInf \<Rightarrow> Fin 0 | NaN \<Rightarrow> NaN)"

definition clamp01 :: "cfloat \<Rightarrow> cfloat" where
  "clamp01 v = unit_clamp (fl_add v (Fin (1 / 2)))"

definition inside_rect :: "cfloat \<Rightarrow> cfloat \<Rightarrow> cfloat \<Rightarrow> cfloat \<Rightarrow> cfloat \<Rightarrow> cfloat \<Rightarrow> bool" where
  "inside_rect l b r t px py = (fl_le l px \<and> fl_le px r \<and> fl_le b py \<and> fl_le py t)"

definition sampled_at_least :: "par_bluenoise_context \<Rightarrow> cfloat \<Rightarrow> cfloat \<Rightarrow> cfloat \<Rightarrow> bool" where
  "sampled_at_least ctx px py bound =
     (case sample_density ctx px py of Inl e \<Rightarrow> False | Inr d \<Rightarrow> fl_le bound d)"

definition spec_mag :: "cfloat \<Rightarrow> cfloat \<Rightarrow> cfloat" where
  "spec_mag vbottom vtop = powf (fl_sub (fl_add vtop (Fin (1 / 2))) (fl_add vbottom (Fin (1 / 2)))) (- 2)"

definition spec_root_point ::
  "par_bluenoise_context \<Rightarrow> cfloat \<Rightarrow> cfloat \<Rightarrow> cfloat \<Rightarrow> cfloat \<Rightarrow> cfloat \<Rightarrow> int \<Rightarrow> par_vec3 option" where
  "spec_root_point ctx density vleft vbottom vright vtop i =
     (let mag = spec_mag vbottom vtop;
          rootTile = ctx_tiles ctx ! 0;
          threshold = mini (tile_npoints rootTile) (fl_mul mag density);
          step = fl_div (Fin 1) (fl_mul mag density)
      in if fl_lt (of_cint i) threshold then
           (case index (tile_points rootTile) i of
              Inl e \<Rightarrow> None
            | Inr p \<Rightarrow>
                if inside_rect (clamp01 vleft) (clamp01 vbottom) (clamp01 vright) (clamp01 vtop) (vx p) (vy p) \<and>
                   sampled_at_least ctx (vx p) (vy p) (fl_mul (of_cint (i + 1)) step)
                then Some \<lparr>vx = fl_sub (vx p) (Fin (1 / 2)), vy = fl_sub (vy p) (Fin (1 / 2)),
                           rank = fl_mul (of_cint i) step\<rparr>
                else None)
         else None)"

definition spec_root_pass ::
  "par_bluenoise_context \<Rightarrow> cfloat \<Rightarrow> cfloat \<Rightarrow> cfloat \<Rightarrow> cfloat \<Rightarrow> cfloat \<Rightarrow> par_vec3 list" where
  "spec_root_pass ctx density vleft vbottom vright vtop =
     List.map_filter (spec_root_point ctx density vleft vbottom vright vtop)
       [0..tile_npoints (ctx_tiles ctx ! 0) - 1]"

section \<open>The visit of a node in the words of the specification\<close>











text \<open>
  \<open>counts_not_negative\<close>: no tile of the set has a negative \<^verbatim>\<open>npoints\<close>. \<open>magnification_ok\<close>:
  the magnification is an infinity or a number that is not negative, as it is whenever the
  root pass of \<^verbatim>\<open>par_bluenoise_generate\<close> returns.
\<close>

definition counts_not_negative :: "par_bluenoise_context \<Rightarrow> bool" where
  "counts_not_negative ctx = (\<forall>tile \<in> set (ctx_tiles ctx). 0 \<le> tile_npoints tile)"

definition magnification_ok :: "cfloat \<Rightarrow> bool" where
  "magnification_ok m = (m = PInf \<or> (\<exists>a. m = Fin a \<and> 0 \<le> a))"

text \<open>
  \<open>quad_flat\<close> is the second scene after \<^verbatim>\<open>generate(1, -0.5, -0.5, 0.5, -0.5)\<close> has set the
  viewport, whose bottom and top are equal; \<open>quad_first level\<close> is the node at the origin of
  that level, the first child of the one above.
\<close>

definition quad_flat :: par_bluenoise_context where
  "quad_flat = set_viewport quad_ctx (Fin 1) (Fin (- 1 / 2)) (Fin (- 1 / 2)) (Fin (1 / 2)) (Fin (- 1 / 2))"

definition quad_first :: "int \<Rightarrow> par_node" where
  "quad_first level = \<lparr>node_tile = 0, node_x = Fin 0, node_y = Fin 0, node_level = level\<rparr>"

section \<open>Single precision\<close>

text \<open>
  The sampler above computes with exact numbers. The type \<^verbatim>\<open>float\<close> of the source is the
  binary32 format of IEEE 754: an operation returns the value of the format that is
  nearest to the exact result, the one with the even significand when two are equally
  near, and an infinity when that value is beyond the format. \<open>round_to p emin\<close> is this
  rounding for the format with \<open>p\<close> bits of significand and the exponents from \<open>emin\<close> to
  \<open>1 - emin\<close>, subnormal values included: \<open>q\<close> is the distance of two neighbours of the
  format around \<open>r\<close>. \<open>to_float\<close> rounds to binary32 and \<open>to_double\<close> to binary64. A zero
  carries no sign, as before.
\<close>

definition nearest_even :: "real \<Rightarrow> int" where
  "nearest_even r =
     (let f = \<lfloor>r\<rfloor>; d = r - of_int f
      in if d < 1 / 2 then f else if 1 / 2 < d then f + 1 else if even f then f else f + 1)"

definition round_to :: "nat \<Rightarrow> int \<Rightarrow> real \<Rightarrow> cfloat" where
  "round_to p emin r =
     (if r = 0 then Fin 0
      else (let e = max \<lfloor>log 2 \<bar>r\<bar>\<rfloor> emin;
                q = 2 powi (e - int p + 1);
                v = of_int (nearest_even (r / q)) * q
            in if 2 powi (2 - emin) \<le> \<bar>v\<bar> then (if 0 < r then PInf else NInf) else Fin v))"

definition to_float :: "cfloat \<Rightarrow> cfloat" where
  "to_float x = (case x of Fin r \<Rightarrow> round_to 24 (- 126) r | _ \<Rightarrow> x)"

definition to_double :: "cfloat \<Rightarrow> cfloat" where
  "to_double x = (case x of Fin r \<Rightarrow> round_to 53 (- 1022) r | _ \<Rightarrow> x)"

text \<open>
  The operations of the source on floats, evaluated in the type \<^verbatim>\<open>float\<close> with no wider
  intermediate format. \<^verbatim>\<open>powf\<close> is taken to return the float nearest to the exact power.
  An \<^verbatim>\<open>int\<close> that meets a float is converted to the nearest float, also in \<^verbatim>\<open>mini\<close>. The
  literal \<^verbatim>\<open>0.5\<close> is a double: \<^verbatim>\<open>x + 0.5\<close> and \<^verbatim>\<open>x - 0.5\<close> are computed in binary64 and
  rounded once more when they are stored in a float.
\<close>

definition addf :: "cfloat \<Rightarrow> cfloat \<Rightarrow> cfloat" where
  "addf a b = to_float (fl_add a b)"

definition subf :: "cfloat \<Rightarrow> cfloat \<Rightarrow> cfloat" where
  "subf a b = to_float (fl_sub a b)"

definition mulf :: "cfloat \<Rightarrow> cfloat \<Rightarrow> cfloat" where
  "mulf a b = to_float (fl_mul a b)"

definition divf :: "cfloat \<Rightarrow> cfloat \<Rightarrow> cfloat" where
  "divf a b = to_float (fl_div a b)"

definition powf32 :: "cfloat \<Rightarrow> int \<Rightarrow> cfloat" where
  "powf32 x n = to_float (powf x n)"

definition int_to_float :: "int \<Rightarrow> cfloat" where
  "int_to_float n = to_float (of_cint n)"

definition add_half :: "cfloat \<Rightarrow> cfloat" where
  "add_half x = to_float (to_double (fl_add x (Fin (1 / 2))))"

definition sub_half :: "cfloat \<Rightarrow> cfloat" where
  "sub_half x = to_float (to_double (fl_sub x (Fin (1 / 2))))"

definition mini32 :: "int \<Rightarrow> cfloat \<Rightarrow> cfloat" where
  "mini32 a b = (if fl_lt (int_to_float a) b then int_to_float a else b)"

text \<open>
  \<^verbatim>\<open>sample_density\<close>, the store of a point, the loop over the root tile and the first part
  of \<^verbatim>\<open>par_bluenoise_generate\<close>, as in the section on the sampler but with every
  operation rounded. The comparisons and the conversion to \<^verbatim>\<open>int\<close> are exact in C.
  \<open>root_candidate32\<close> is the body of the loop without the write.
\<close>

definition sample_density32 :: "par_bluenoise_context \<Rightarrow> cfloat \<Rightarrow> cfloat \<Rightarrow> error + cfloat" where
  "sample_density32 ctx x y =
     (case ctx_density ctx of
        None \<Rightarrow> Inr (Fin 1)
      | Some density \<Rightarrow>
          (let width = ctx_density_width ctx;
               height = ctx_density_height ctx;
               y = subf (Fin 1) y;
               x = sub_half x;
               y = sub_half y;
               tx = mulf x (int_to_float (maxi width height));
               ty = mulf y (int_to_float (maxi width height));
               tx = addf tx (int_to_float (width sdiv 2));
               ty = addf ty (int_to_float (height sdiv 2))
           in case float_to_int tx of
                None \<Rightarrow> Inl FloatToInt
              | Some itx \<Rightarrow>
                  (case float_to_int ty of
                     None \<Rightarrow> Inl FloatToInt
                   | Some ity \<Rightarrow>
                       (let ix = clampi itx 0 (width - 2);
                            iy = clampi ity 0 (height - 2)
                        in index density (iy * width + ix)))))"

definition store_point32 :: "par_bluenoise_context \<Rightarrow> cfloat \<Rightarrow> cfloat \<Rightarrow> cfloat \<Rightarrow> error + par_bluenoise_context" where
  "store_point32 ctx px py r =
     (if ctx_npoints ctx < length (ctx_points ctx)
      then Inr (ctx\<lparr>ctx_points := (ctx_points ctx)
                       [ctx_npoints ctx := \<lparr>vx = sub_half px, vy = sub_half py, rank = r\<rparr>],
                    ctx_npoints := ctx_npoints ctx + 1\<rparr>)
      else Inl BufferOverflow)"

function root_loop32 ::
  "par_bluenoise_context \<Rightarrow> par_tile \<Rightarrow> cfloat \<Rightarrow> int \<Rightarrow> int \<Rightarrow> error + par_bluenoise_context" where
  "root_loop32 ctx tile0 factor ntests i =
     (if i < ntests then
        (case index (tile_points tile0) i of
           Inl e \<Rightarrow> Inl e
         | Inr p \<Rightarrow>
             (let px = vx p; py = vy p
              in if outside ctx px py
                 then root_loop32 ctx tile0 factor ntests (i + 1)
                 else (case sample_density32 ctx px py of
                         Inl e \<Rightarrow> Inl e
                       | Inr d \<Rightarrow>
                           if fl_lt d (mulf (int_to_float (i + 1)) factor)
                           then root_loop32 ctx tile0 factor ntests (i + 1)
                           else (case store_point32 ctx px py (mulf (int_to_float i) factor) of
                                   Inl e \<Rightarrow> Inl e
                                 | Inr ctx' \<Rightarrow> root_loop32 ctx' tile0 factor ntests (i + 1)))))
      else Inr ctx)"
  by pat_completeness auto
termination
  by (relation "measure (\<lambda>(ctx, tile0, factor, ntests, i). nat (ntests - i))") auto

definition set_viewport32 ::
  "par_bluenoise_context \<Rightarrow> cfloat \<Rightarrow> cfloat \<Rightarrow> cfloat \<Rightarrow> cfloat \<Rightarrow> cfloat \<Rightarrow> par_bluenoise_context" where
  "set_viewport32 ctx density vleft vbottom vright vtop =
     (let ctx = ctx\<lparr>ctx_global_density := density, ctx_npoints := 0\<rparr>;
          vleft = add_half vleft;
          vright = add_half vright;
          vbottom = add_half vbottom;
          vtop = add_half vtop;
          mag = powf32 (subf vtop vbottom) (- 2);
          vleft = clampf vleft (Fin 0) (Fin 1);
          vright = clampf vright (Fin 0) (Fin 1);
          vbottom = clampf vbottom (Fin 0) (Fin 1);
          vtop = clampf vtop (Fin 0) (Fin 1)
      in ctx\<lparr>ctx_left := vleft, ctx_right := vright, ctx_bottom := vbottom, ctx_top := vtop,
              ctx_mag := mag\<rparr>)"

definition root_factor32 :: "par_bluenoise_context \<Rightarrow> cfloat" where
  "root_factor32 ctx = divf (divf (Fin 1) (ctx_mag ctx)) (ctx_global_density ctx)"

definition root_pass32 :: "par_bluenoise_context \<Rightarrow> error + par_bluenoise_context" where
  "root_pass32 ctx =
     (case index (ctx_tiles ctx) 0 of
        Inl e \<Rightarrow> Inl e
      | Inr tile0 \<Rightarrow>
          (case float_to_int (mini32 (tile_npoints tile0) (mulf (ctx_mag ctx) (ctx_global_density ctx))) of
             None \<Rightarrow> Inl FloatToInt
           | Some ntests \<Rightarrow> root_loop32 ctx tile0 (root_factor32 ctx) ntests 0))"

definition root_candidate32 ::
  "par_bluenoise_context \<Rightarrow> par_tile \<Rightarrow> cfloat \<Rightarrow> int \<Rightarrow> error + par_vec3 option" where
  "root_candidate32 ctx tile0 factor i =
     (case index (tile_points tile0) i of
        Inl e \<Rightarrow> Inl e
      | Inr p \<Rightarrow>
          if outside ctx (vx p) (vy p) then Inr None
          else (case sample_density32 ctx (vx p) (vy p) of
                  Inl e \<Rightarrow> Inl e
                | Inr d \<Rightarrow>
                    if fl_lt d (mulf (int_to_float (i + 1)) factor) then Inr None
                    else Inr (Some \<lparr>vx = sub_half (vx p), vy = sub_half (vy p),
                                    rank = mulf (int_to_float i) factor\<rparr>)))"

text \<open>
  The root pass in the words of the specification, with two corrections. The
  magnification, the count of tests and the step are the values that single precision
  gives, the step computed as \<^verbatim>\<open>1 / mag / density\<close>; and the count of tests is
  \<open>min(count, mag * density)\<close> cut to a whole number \<open>n\<close> towards zero, so that the points
  \<open>0, ..., n - 1\<close> are tested.
\<close>

definition sampled_at_least32 :: "par_bluenoise_context \<Rightarrow> cfloat \<Rightarrow> cfloat \<Rightarrow> cfloat \<Rightarrow> bool" where
  "sampled_at_least32 ctx px py bound =
     (case sample_density32 ctx px py of Inl e \<Rightarrow> False | Inr d \<Rightarrow> fl_le bound d)"

definition amended_root_point ::
  "par_bluenoise_context \<Rightarrow> cfloat \<Rightarrow> cfloat \<Rightarrow> cfloat \<Rightarrow> cfloat \<Rightarrow> cfloat \<Rightarrow> int \<Rightarrow> par_vec3 option" where
  "amended_root_point ctx density vleft vbottom vright vtop i =
     (let mag = powf32 (subf (add_half vtop) (add_half vbottom)) (- 2);
          rootTile = ctx_tiles ctx ! 0;
          step = divf (divf (Fin 1) mag) density
      in case index (tile_points rootTile) i of
           Inl e \<Rightarrow> None
         | Inr p \<Rightarrow>
             if inside_rect (unit_clamp (add_half vleft)) (unit_clamp (add_half vbottom))
                  (unit_clamp (add_half vright)) (unit_clamp (add_half vtop)) (vx p) (vy p) \<and>
                sampled_at_least32 ctx (vx p) (vy p) (mulf (int_to_float (i + 1)) step)
             then Some \<lparr>vx = sub_half (vx p), vy = sub_half (vy p), rank = mulf (int_to_float i) step\<rparr>
             else None)"

definition amended_root_pass ::
  "par_bluenoise_context \<Rightarrow> cfloat \<Rightarrow> cfloat \<Rightarrow> cfloat \<Rightarrow> cfloat \<Rightarrow> cfloat \<Rightarrow> par_vec3 list" where
  "amended_root_pass ctx density vleft vbottom vright vtop =
     (let mag = powf32 (subf (add_half vtop) (add_half vbottom)) (- 2);
          rootTile = ctx_tiles ctx ! 0
      in case float_to_int (mini32 (tile_npoints rootTile) (mulf mag density)) of
           None \<Rightarrow> []
         | Some n \<Rightarrow>
             List.map_filter (amended_root_point ctx density vleft vbottom vright vtop) [0..n - 1])"

section \<open>More predicates and scenes\<close>

text \<open>
  \<open>root_point_passes ctx i q\<close>: the call that left the context \<open>ctx\<close> has tested the point
  \<open>i\<close> of the root tile, which is \<open>q\<close>, and \<open>q\<close> lies within the clamped viewport with a
  density sampled at it of at least \<open>(i + 1) * factor\<close>. \<open>quad_band\<close> is the second scene
  after \<^verbatim>\<open>generate(2, -0.5, -0.25, 0.5, 0)\<close> has set the viewport; \<open>quad_right_child\<close> is the
  second child of its root and \<open>quad_grandchild\<close> the third child of the first child.
\<close>

definition root_point_passes :: "par_bluenoise_context \<Rightarrow> int \<Rightarrow> par_vec2 \<Rightarrow> bool" where
  "root_point_passes ctx i q =
     (let rootTile = ctx_tiles ctx ! 0;
          factor = fl_div (fl_div (Fin 1) (ctx_mag ctx)) (ctx_global_density ctx)
      in case float_to_int (mini (tile_npoints rootTile) (fl_mul (ctx_mag ctx) (ctx_global_density ctx))) of
           None \<Rightarrow> False
         | Some n \<Rightarrow>
             0 \<le> i \<and> i < n \<and> index (tile_points rootTile) i = Inr q \<and>
             inside_rect (ctx_left ctx) (ctx_bottom ctx) (ctx_right ctx) (ctx_top ctx) (vx q) (vy q) \<and>
             sampled_at_least ctx (vx q) (vy q) (fl_mul (of_cint (i + 1)) factor))"

definition quad_band :: par_bluenoise_context where
  "quad_band = set_viewport quad_ctx (Fin 2) (Fin (- 1 / 2)) (Fin (- 1 / 4)) (Fin (1 / 2)) (Fin 0)"

definition quad_right_child :: par_node where
  "quad_right_child = \<lparr>node_tile = 0, node_x = Fin (1 / 2), node_y = Fin 0, node_level = 1\<rparr>"

definition quad_grandchild :: par_node where
  "quad_grandchild = \<lparr>node_tile = 0, node_x = Fin 0, node_y = Fin (1 / 4), node_level = 2\<rparr>"

section \<open>Properties\<close>

lemmas sampler_defs =
  par_bluenoise_generate_def set_viewport_def root_pass_def root_factor_def root_node_def
  misses_viewport_def tile_size_def tile_pass_def tile_threshold_def tile_depth_def tile_factor_def
  tile_scale_def spawn_children_def Let_def index_def powf_def clampf_def fl_gt_def fl_sub_def
  mini_def of_cint_def float_to_int_def trunc_def outside_def sample_density_def store_point_def

lemmas scenario_defs =
  scenario_ctx_def scenario_tile_def scenario_points_def scenario_result_def origin3_def

subsection \<open>The buffer and the points written\<close>


declare collect.simps [simp del]
declare root_loop.simps [simp del]
declare tile_loop.simps [simp del]

lemma store_point_fits:
  "store_point ctx px py r =
     (if fits ctx [moved px py r] then Inr (append_points ctx [moved px py r]) else Inl BufferOverflow)"
  by (auto simp: store_point_def fits_def append_points_def moved_def upd_conv_take_nth_drop)

lemma append_points_Nil [simp]: "fits ctx [] \<Longrightarrow> append_points ctx [] = ctx"
  by (simp add: append_points_def fits_def)

lemma fits_append:
  "fits ctx (ps @ qs) \<longleftrightarrow> fits ctx ps \<and> fits (append_points ctx ps) qs"
  by (auto simp: fits_def append_points_def)

lemma append_points_append:
  "fits ctx ps \<Longrightarrow> append_points (append_points ctx ps) qs = append_points ctx (ps @ qs)"
  by (simp add: fits_def append_points_def ac_simps)

lemma fits_Nil_iff: "fits ctx [] \<longleftrightarrow> ctx_npoints ctx \<le> length (ctx_points ctx)"
  by (simp add: fits_def)

lemma fits_append_points_Nil: "fits ctx ps \<Longrightarrow> fits (append_points ctx ps) []"
  by (simp add: fits_def append_points_def)

text \<open>What the sampler reads of the context besides the buffer and the count.\<close>

lemma static_points [simp]:
  "outside (ctx\<lparr>ctx_points := b\<rparr>) = outside ctx"
  "sample_density (ctx\<lparr>ctx_points := b\<rparr>) = sample_density ctx"
  "tile_size (ctx\<lparr>ctx_points := b\<rparr>) = tile_size ctx"
  "tile_depth (ctx\<lparr>ctx_points := b\<rparr>) = tile_depth ctx"
  "tile_threshold (ctx\<lparr>ctx_points := b\<rparr>) = tile_threshold ctx"
  "tile_factor (ctx\<lparr>ctx_points := b\<rparr>) = tile_factor ctx"
  "tile_scale (ctx\<lparr>ctx_points := b\<rparr>) = tile_scale ctx"
  "root_factor (ctx\<lparr>ctx_points := b\<rparr>) = root_factor ctx"
  "misses_viewport (ctx\<lparr>ctx_points := b\<rparr>) = misses_viewport ctx"
  "spawn_children (ctx\<lparr>ctx_points := b\<rparr>) = spawn_children ctx"
  by (simp_all add: outside_def sample_density_def tile_size_def tile_depth_def tile_threshold_def
      tile_factor_def tile_scale_def root_factor_def misses_viewport_def spawn_children_def
      fun_eq_iff Let_def cong: option.case_cong)

lemma static_npoints [simp]:
  "outside (ctx\<lparr>ctx_npoints := n\<rparr>) = outside ctx"
  "sample_density (ctx\<lparr>ctx_npoints := n\<rparr>) = sample_density ctx"
  "tile_size (ctx\<lparr>ctx_npoints := n\<rparr>) = tile_size ctx"
  "tile_depth (ctx\<lparr>ctx_npoints := n\<rparr>) = tile_depth ctx"
  "tile_threshold (ctx\<lparr>ctx_npoints := n\<rparr>) = tile_threshold ctx"
  "tile_factor (ctx\<lparr>ctx_npoints := n\<rparr>) = tile_factor ctx"
  "tile_scale (ctx\<lparr>ctx_npoints := n\<rparr>) = tile_scale ctx"
  "root_factor (ctx\<lparr>ctx_npoints := n\<rparr>) = root_factor ctx"
  "misses_viewport (ctx\<lparr>ctx_npoints := n\<rparr>) = misses_viewport ctx"
  "spawn_children (ctx\<lparr>ctx_npoints := n\<rparr>) = spawn_children ctx"
  by (simp_all add: outside_def sample_density_def tile_size_def tile_depth_def tile_threshold_def
      tile_factor_def tile_scale_def root_factor_def misses_viewport_def spawn_children_def
      fun_eq_iff Let_def cong: option.case_cong)

lemma candidate_points [simp]:
  "root_candidate (ctx\<lparr>ctx_points := b\<rparr>) = root_candidate ctx"
  "tile_candidate (ctx\<lparr>ctx_points := b\<rparr>) = tile_candidate ctx"
  "root_candidate (ctx\<lparr>ctx_npoints := n\<rparr>) = root_candidate ctx"
  "tile_candidate (ctx\<lparr>ctx_npoints := n\<rparr>) = tile_candidate ctx"
  by (simp_all add: root_candidate_def tile_candidate_def fun_eq_iff Let_def cong: sum.case_cong if_cong)

lemma emits_points [simp]:
  "root_emits (ctx\<lparr>ctx_points := b\<rparr>) = root_emits ctx"
  "tile_emits (ctx\<lparr>ctx_points := b\<rparr>) = tile_emits ctx"
  "root_emits (ctx\<lparr>ctx_npoints := n\<rparr>) = root_emits ctx"
  "tile_emits (ctx\<lparr>ctx_npoints := n\<rparr>) = tile_emits ctx"
  by (simp_all add: root_emits_def tile_emits_def fun_eq_iff Let_def cong: sum.case_cong option.case_cong)

lemma node_emits_points_npoints:
  "node_emits fuel (ctx\<lparr>ctx_points := b, ctx_npoints := n\<rparr>) node = node_emits fuel ctx node"
  "children_emits fuel (ctx\<lparr>ctx_points := b, ctx_npoints := n\<rparr>) nodes = children_emits fuel ctx nodes"
proof (induction fuel ctx node and fuel ctx nodes rule: node_emits_children_emits.induct)
  case (2 fuel ctx node)
  then show ?case
    by (simp cong: sum.case_cong if_cong)
qed (auto split: sum.splits)

lemma emits_append_points [simp]:
  "root_emits (append_points ctx ps) = root_emits ctx"
  "tile_emits (append_points ctx ps) = tile_emits ctx"
  "node_emits fuel (append_points ctx ps) = node_emits fuel ctx"
  "children_emits fuel (append_points ctx ps) = children_emits fuel ctx"
  "root_candidate (append_points ctx ps) = root_candidate ctx"
  "tile_candidate (append_points ctx ps) = tile_candidate ctx"
  "misses_viewport (append_points ctx ps) = misses_viewport ctx"
  "spawn_children (append_points ctx ps) = spawn_children ctx"
  "tile_threshold (append_points ctx ps) = tile_threshold ctx"
  "tile_size (append_points ctx ps) = tile_size ctx"
  "tile_factor (append_points ctx ps) = tile_factor ctx"
  "root_factor (append_points ctx ps) = root_factor ctx"
  "ctx_tiles (append_points ctx ps) = ctx_tiles ctx"
  "ctx_mag (append_points ctx ps) = ctx_mag ctx"
  "ctx_global_density (append_points ctx ps) = ctx_global_density ctx"
  by (simp_all add: append_points_def node_emits_points_npoints fun_eq_iff)

lemma loop_collect:
  assumes step: "\<And>c i. L c i =
       (if i < n then
          (case f c i of
             Inl e \<Rightarrow> Inl e
           | Inr None \<Rightarrow> L c (i + 1)
           | Inr (Some p) \<Rightarrow> if fits c [p] then L (append_points c [p]) (i + 1) else Inl BufferOverflow)
        else Inr c)"
    and static: "\<And>c p. f (append_points c [p]) = f c"
  shows "fits ctx [] \<Longrightarrow>
     L ctx i = Inr ctx' \<longleftrightarrow>
       (\<exists>ps. collect (f ctx) n i = Inr ps \<and> fits ctx ps \<and> ctx' = append_points ctx ps)"
proof (induction "nat (n - i)" arbitrary: i ctx)
  case 0
  then have "\<not> i < n" by simp
  then show ?case
    using "0.prems" by (subst step, subst collect.simps) auto
next
  case (Suc k)
  then have lt: "i < n" and k: "k = nat (n - (i + 1))" by simp_all
  show ?case
  proof (cases "f ctx i")
    case (Inl e)
    then show ?thesis
      using lt by (subst step, subst collect.simps) simp
  next
    case (Inr r)
    show ?thesis
    proof (cases r)
      case None
      show ?thesis
        using lt Inr None Suc.hyps(1) [OF k Suc.prems]
        by (subst step, subst collect.simps) (auto split: sum.splits)
    next
      case (Some p)
      show ?thesis
      proof (cases "fits ctx [p]")
        case False
        then show ?thesis
          using lt Inr Some
          by (subst step, subst collect.simps) (auto split: sum.splits simp: fits_def)
      next
        case True
        then have le: "fits (append_points ctx [p]) []"
          by (rule fits_append_points_Nil)
        have "fits ctx (p # ps) \<longleftrightarrow> fits (append_points ctx [p]) ps" for ps
          using True fits_append [of ctx "[p]" ps] by simp
        moreover have "append_points (append_points ctx [p]) ps = append_points ctx (p # ps)" for ps
          using True append_points_append [of ctx "[p]" ps] by simp
        ultimately show ?thesis
          using lt Inr Some True Suc.hyps(1) [OF k le] static [of ctx p]
          by (subst step, subst collect.simps) (auto split: sum.splits)
      qed
    qed
  qed
qed

lemma root_loop_step:
  "root_loop ctx tile0 factor ntests i =
     (if i < ntests then
        (case root_candidate ctx tile0 factor i of
           Inl e \<Rightarrow> Inl e
         | Inr None \<Rightarrow> root_loop ctx tile0 factor ntests (i + 1)
         | Inr (Some p) \<Rightarrow>
             if fits ctx [p] then root_loop (append_points ctx [p]) tile0 factor ntests (i + 1)
             else Inl BufferOverflow)
      else Inr ctx)"
  by (subst root_loop.simps)
     (simp add: root_candidate_def store_point_fits Let_def split: sum.split)

lemma tile_loop_step:
  "tile_loop ctx tile x y level tileSize factor ntests i =
     (if i < ntests then
        (case tile_candidate ctx tile x y level tileSize factor i of
           Inl e \<Rightarrow> Inl e
         | Inr None \<Rightarrow> tile_loop ctx tile x y level tileSize factor ntests (i + 1)
         | Inr (Some p) \<Rightarrow>
             if fits ctx [p] then tile_loop (append_points ctx [p]) tile x y level tileSize factor ntests (i + 1)
             else Inl BufferOverflow)
      else Inr ctx)"
  by (subst tile_loop.simps)
     (simp add: tile_candidate_def store_point_fits Let_def split: sum.split)

lemma root_loop_iff:
  "fits ctx [] \<Longrightarrow>
   root_loop ctx tile0 factor ntests i = Inr ctx' \<longleftrightarrow>
     (\<exists>ps. collect (root_candidate ctx tile0 factor) ntests i = Inr ps \<and> fits ctx ps \<and>
           ctx' = append_points ctx ps)"
  by (rule loop_collect [where L = "\<lambda>c. root_loop c tile0 factor ntests"
        and f = "\<lambda>c. root_candidate c tile0 factor"])
     (simp_all add: root_loop_step [symmetric])

lemma tile_loop_iff:
  "fits ctx [] \<Longrightarrow>
   tile_loop ctx tile x y level tileSize factor ntests i = Inr ctx' \<longleftrightarrow>
     (\<exists>ps. collect (tile_candidate ctx tile x y level tileSize factor) ntests i = Inr ps \<and> fits ctx ps \<and>
           ctx' = append_points ctx ps)"
  by (rule loop_collect [where L = "\<lambda>c. tile_loop c tile x y level tileSize factor ntests"
        and f = "\<lambda>c. tile_candidate c tile x y level tileSize factor"])
     (simp_all add: tile_loop_step [symmetric])

lemma root_pass_iff:
  "fits ctx [] \<Longrightarrow>
   root_pass ctx = Inr ctx' \<longleftrightarrow>
     (\<exists>ps. root_emits ctx = Inr ps \<and> fits ctx ps \<and> ctx' = append_points ctx ps)"
  by (simp add: root_pass_def root_emits_def root_loop_iff split: sum.split option.split)

lemma tile_pass_iff:
  "fits ctx [] \<Longrightarrow>
   tile_pass ctx node tile = Inr ctx' \<longleftrightarrow>
     (\<exists>ps. tile_emits ctx node tile = Inr ps \<and> fits ctx ps \<and> ctx' = append_points ctx ps)"
  by (simp add: tile_pass_def tile_emits_def tile_loop_iff Let_def split: sum.split option.split)


lemma apply_tile_iff:
  "fits ctx [] \<Longrightarrow>
   apply_tile fuel ctx node = Inr ctx' \<longleftrightarrow>
     (\<exists>ps. node_emits fuel ctx node = Inr ps \<and> fits ctx ps \<and> ctx' = append_points ctx ps)"
  "fits ctx [] \<Longrightarrow>
   apply_children fuel ctx nodes = Inr ctx' \<longleftrightarrow>
     (\<exists>ps. children_emits fuel ctx nodes = Inr ps \<and> fits ctx ps \<and> ctx' = append_points ctx ps)"
proof (induction fuel ctx node and fuel ctx nodes arbitrary: ctx' and ctx'
    rule: apply_tile_apply_children.induct)
  case (1 ctx node)
  show ?case by simp
next
  case (2 fuel ctx node)
  show ?case
  proof (cases "misses_viewport ctx node")
    case True
    then show ?thesis using "2.prems" by auto
  next
    case miss: False
    show ?thesis
    proof (cases "index (ctx_tiles ctx) (node_tile node)")
      case (Inl e)
      then show ?thesis using miss by simp
    next
      case tile: (Inr tile)
      show ?thesis
      proof (cases "tile_pass ctx node tile")
        case (Inl e)
        then have "tile_emits ctx node tile = Inr ps \<Longrightarrow> \<not> fits ctx ps" for ps
          using tile_pass_iff [OF "2.prems", of node tile] by auto
        then show ?thesis
          using miss tile Inl by (auto simp: fits_append split: sum.splits if_splits)
      next
        case pass: (Inr ctx1)
        then obtain ps where ps: "tile_emits ctx node tile = Inr ps" "fits ctx ps"
          "ctx1 = append_points ctx ps"
          using tile_pass_iff [OF "2.prems", of node tile ctx1] by auto
        show ?thesis
        proof (cases "fl_le (tile_threshold ctx tile (node_level node)) (of_cint (tile_nsubpts tile))")
          case True
          then show ?thesis using miss tile pass ps by auto
        next
          case deeper: False
          show ?thesis
          proof (cases "spawn_children ctx node tile")
            case (Inl e)
            then show ?thesis using miss tile pass ps deeper by simp
          next
            case (Inr children)
            have sp: "spawn_children ctx1 node tile = Inr children"
              using Inr ps(3) by simp
            have f1: "fits ctx1 []"
              using ps by (simp add: fits_append_points_Nil)
            note IH = "2.IH" [OF miss tile pass deeper sp f1]
            show ?thesis
              using miss tile pass ps deeper Inr IH
              by (auto simp: fits_append append_points_append split: sum.splits)
          qed
        qed
      qed
    qed
  qed
next
  case (3 fuel ctx)
  then show ?case by auto
next
  case (4 fuel ctx node rest)
  show ?case
  proof (cases "apply_tile fuel ctx node")
    case (Inl e)
    then have "node_emits fuel ctx node = Inr ps \<Longrightarrow> \<not> fits ctx ps" for ps
      using "4.IH"(1) [OF "4.prems"] by auto
    then show ?thesis
      using Inl by (auto simp: fits_append split: sum.splits)
  next
    case (Inr ctx1)
    then obtain ps where ps: "node_emits fuel ctx node = Inr ps" "fits ctx ps"
      "ctx1 = append_points ctx ps"
      using "4.IH"(1) [OF "4.prems"] by auto
    have f1: "fits ctx1 []"
      using ps by (simp add: fits_append_points_Nil)
    note IH = "4.IH"(2) [OF Inr f1]
    show ?thesis
      using Inr ps IH by (auto simp: fits_append append_points_append split: sum.splits)
  qed
qed

lemma set_viewport_fits [simp]: "fits (set_viewport ctx d l b r t) ps \<longleftrightarrow> length ps \<le> length (ctx_points ctx)"
  by (simp add: set_viewport_def fits_def Let_def)

lemma generate_iff:
  "par_bluenoise_generate fuel ctx d l b r t = Inr ctx' \<longleftrightarrow>
     (\<exists>ps. generate_emits fuel (set_viewport ctx d l b r t) = Inr ps \<and>
           length ps \<le> length (ctx_points ctx) \<and>
           ctx' = append_points (set_viewport ctx d l b r t) ps)"
proof -
  let ?c = "set_viewport ctx d l b r t"
  have f0: "fits ?c []" by simp
  show ?thesis
  proof (cases "root_pass ?c")
    case (Inl e)
    then have "root_emits ?c = Inr ps \<Longrightarrow> \<not> fits ?c ps" for ps
      using root_pass_iff [OF f0] by auto
    then show ?thesis
      using Inl by (auto simp: par_bluenoise_generate_def generate_emits_def split: sum.splits)
  next
    case (Inr ctx1)
    then obtain ps where ps: "root_emits ?c = Inr ps" "fits ?c ps" "ctx1 = append_points ?c ps"
      using root_pass_iff [OF f0] by auto
    have f1: "fits ctx1 []"
      using ps by (simp only: fits_append_points_Nil)
    have "fits ?c (ps @ qs) \<longleftrightarrow> fits ctx1 qs" for qs
      using ps fits_append [of ?c ps qs] by simp
    then have *: "length (ps @ qs) \<le> length (ctx_points ctx) \<longleftrightarrow> fits ctx1 qs" for qs
      by (simp only: set_viewport_fits)
    show ?thesis
      using Inr ps apply_tile_iff(1) [OF f1, of fuel root_node ctx'] * append_points_append [of ?c ps]
      by (auto simp add: par_bluenoise_generate_def generate_emits_def simp del: set_viewport_fits split: sum.splits)
  qed
qed

lemma generated_append_points:
  "fits ctx ps \<Longrightarrow> generated (append_points ctx ps) = generated ctx @ ps"
  by (simp add: generated_def append_points_def fits_def)

subsection \<open>The scenario\<close>

lemma scenario_run:
  "par_bluenoise_generate (Suc fuel) scenario_ctx (Fin 4) (Fin (- 1 / 2)) (Fin (- 1 / 2)) (Fin (1 / 2)) (Fin (1 / 2))
     = Inr scenario_result"
  by (simp add: sampler_defs scenario_defs root_loop.simps tile_loop.simps)

text \<open>
  C3. On the scenario, \<^verbatim>\<open>generate(density = 4, -0.5, -0.5, 0.5, 0.5)\<close> returns, whatever the
  depth the traversal is allowed, the four points at \<open>(-0.4, -0.4)\<close>, \<open>(-0.2, -0.2)\<close>,
  \<open>(0.1, 0.1)\<close> and \<open>(0.4, 0.4)\<close> with the ranks 0, 0.25, 0.5 and 0.75, and
  \<^verbatim>\<open>sortByRank\<close> on that result gives the same points the ranks 0, 1, 2 and 3.
\<close>

theorem scenario_generate_sort:
  "par_bluenoise_generate (Suc fuel) scenario_ctx (Fin 4) (Fin (- 1 / 2)) (Fin (- 1 / 2)) (Fin (1 / 2)) (Fin (1 / 2))
     = Inr scenario_result
   \<and> ctx_npoints scenario_result = 4
   \<and> generated scenario_result =
       [\<lparr>vx = Fin (- (4 / 10)), vy = Fin (- (4 / 10)), rank = Fin 0\<rparr>,
        \<lparr>vx = Fin (- (2 / 10)), vy = Fin (- (2 / 10)), rank = Fin (1 / 4)\<rparr>,
        \<lparr>vx = Fin (1 / 10), vy = Fin (1 / 10), rank = Fin (1 / 2)\<rparr>,
        \<lparr>vx = Fin (4 / 10), vy = Fin (4 / 10), rank = Fin (3 / 4)\<rparr>]
   \<and> par_bluenoise_sort_by_rank (ctx_points scenario_result) (int (ctx_npoints scenario_result)) =
       Inr [\<lparr>vx = Fin (- (4 / 10)), vy = Fin (- (4 / 10)), rank = Fin 0\<rparr>,
            \<lparr>vx = Fin (- (2 / 10)), vy = Fin (- (2 / 10)), rank = Fin 1\<rparr>,
            \<lparr>vx = Fin (1 / 10), vy = Fin (1 / 10), rank = Fin 2\<rparr>,
            \<lparr>vx = Fin (4 / 10), vy = Fin (4 / 10), rank = Fin 3\<rparr>]"
proof -
  have count: "ctx_npoints scenario_result = 4"
    by (simp add: scenario_defs)
  have out: "generated scenario_result = scenario_points"
    by (simp add: generated_def scenario_defs)
  have sorted: "par_bluenoise_sort_by_rank (ctx_points scenario_result) (int (ctx_npoints scenario_result)) =
       Inr [\<lparr>vx = Fin (- (4 / 10)), vy = Fin (- (4 / 10)), rank = Fin 0\<rparr>,
            \<lparr>vx = Fin (- (2 / 10)), vy = Fin (- (2 / 10)), rank = Fin 1\<rparr>,
            \<lparr>vx = Fin (1 / 10), vy = Fin (1 / 10), rank = Fin 2\<rparr>,
            \<lparr>vx = Fin (4 / 10), vy = Fin (4 / 10), rank = Fin 3\<rparr>]"
    by (simp add: par_bluenoise_sort_by_rank_def scenario_defs cmp_def fl_gt_def index_def of_cint_def)
  show ?thesis
    using scenario_run [of fuel] count out sorted by (simp add: scenario_points_def)
qed

subsection \<open>Two calls in a row\<close>

lemma set_viewport_again:
  "set_viewport (append_points (set_viewport ctx d l b r t) ps) d l b r t =
     (set_viewport ctx d l b r t)\<lparr>ctx_points := ctx_points (append_points (set_viewport ctx d l b r t) ps)\<rparr>"
  by (simp add: set_viewport_def append_points_def Let_def)

lemma generate_emits_points [simp]:
  "generate_emits fuel (ctx\<lparr>ctx_points := b\<rparr>) = generate_emits fuel ctx"
  using node_emits_points_npoints(1) [where fuel = fuel and ctx = ctx and b = b and n = "ctx_npoints ctx"]
  by (simp add: generate_emits_def cong: sum.case_cong)

text \<open>
  C6. A call of \<^verbatim>\<open>generate\<close> that returns leaves a context on which the same call, with
  the same density and viewport, returns that very context again: the same count and the
  same buffer, hence the same coordinates and the same ranks, written from the start of
  the buffer and not after the points of the first call.
\<close>

theorem generate_twice:
  assumes "par_bluenoise_generate fuel ctx density vleft vbottom vright vtop = Inr ctx'"
  shows "par_bluenoise_generate fuel ctx' density vleft vbottom vright vtop = Inr ctx'"
proof -
  let ?c = "set_viewport ctx density vleft vbottom vright vtop"
  from assms obtain ps where ps: "generate_emits fuel ?c = Inr ps" "length ps \<le> length (ctx_points ctx)"
    "ctx' = append_points ?c ps"
    unfolding generate_iff by blast
  have n0: "ctx_npoints ?c = 0" "ctx_points ?c = ctx_points ctx"
    by (simp_all add: set_viewport_def Let_def)
  have len: "length (ctx_points ctx') = length (ctx_points ctx)"
    using ps(2,3) n0 by (simp add: append_points_def)
  have sv: "set_viewport ctx' density vleft vbottom vright vtop = ?c\<lparr>ctx_points := ctx_points ctx'\<rparr>"
    unfolding ps(3) by (rule set_viewport_again)
  have "append_points (?c\<lparr>ctx_points := ctx_points ctx'\<rparr>) ps = ctx'"
    using ps(2) n0 unfolding ps(3) by (simp add: append_points_def)
  then show ?thesis
    unfolding generate_iff using ps(1,2) len sv by auto
qed

theorem generate_twice_witness:
  "par_bluenoise_generate 1 scenario_ctx (Fin 4) (Fin (- 1 / 2)) (Fin (- 1 / 2)) (Fin (1 / 2)) (Fin (1 / 2))
     = Inr scenario_result
   \<and> par_bluenoise_generate 1 scenario_result (Fin 4) (Fin (- 1 / 2)) (Fin (- 1 / 2)) (Fin (1 / 2)) (Fin (1 / 2))
     = Inr scenario_result
   \<and> ctx_npoints scenario_result = 4"
proof -
  have run: "par_bluenoise_generate 1 scenario_ctx (Fin 4) (Fin (- 1 / 2)) (Fin (- 1 / 2)) (Fin (1 / 2))
      (Fin (1 / 2)) = Inr scenario_result"
    using scenario_run [of 0] by simp
  show ?thesis
    using run generate_twice [OF run] by (simp add: scenario_defs)
qed

subsection \<open>The second scene\<close>

lemmas quad_defs = quad_ctx_def quad_tile_def origin3_def

lemma quad_without_nan: "tiles_without_nan quad_ctx" "tiles_without_nan flat_ctx"
  by (simp_all add: tiles_without_nan_def quad_defs flat_ctx_def)

subsection \<open>Every point lies in the viewport\<close>

lemma collect_mem:
  "collect f n i = Inr ps \<Longrightarrow> p \<in> set ps \<Longrightarrow> \<exists>k. i \<le> k \<and> k < n \<and> f k = Inr (Some p)"
proof (induction "nat (n - i)" arbitrary: i ps)
  case 0
  then show ?case by (subst (asm) collect.simps) simp
next
  case (Suc m)
  then have lt: "i < n" and m: "m = nat (n - (i + 1))" by simp_all
  from Suc.prems(1) lt obtain r rest where r: "f i = Inr r" "collect f n (i + 1) = Inr rest"
    "ps = (case r of None \<Rightarrow> rest | Some q \<Rightarrow> q # rest)"
    by (subst (asm) collect.simps) (auto split: sum.splits)
  show ?case
  proof (cases "p \<in> set rest")
    case True
    from Suc.hyps(1) [OF m r(2) True] obtain k where "i + 1 \<le> k" "k < n" "f k = Inr (Some p)"
      by blast
    then show ?thesis by (intro exI [of _ k]) simp
  next
    case False
    with Suc.prems(2) r(3) have "r = Some p" by (cases r) auto
    with r(1) lt show ?thesis by auto
  qed
qed

declare children_row.simps [simp del] children_rows.simps [simp del]

lemma children_row_eq:
  "children_row n tile x y level scale ty tx = Inr row \<Longrightarrow>
   row = map (child_node n tile x y level scale ty) [tx..n - 1]"
proof (induction "nat (n - tx)" arbitrary: tx row)
  case 0
  then show ?case by (subst (asm) children_row.simps) simp
next
  case (Suc m)
  then have lt: "tx < n" and m: "m = nat (n - (tx + 1))" by simp_all
  from Suc.prems lt obtain rest where rest: "children_row n tile x y level scale ty (tx + 1) = Inr rest"
    "row = child_node n tile x y level scale ty tx # rest"
    by (subst (asm) children_row.simps)
       (auto simp: index_def child_node_def Let_def split: sum.splits if_splits)
  show ?case
    using Suc.hyps(1) [OF m rest(1)] rest(2) lt by (simp add: upto_rec1 [of tx])
qed

lemma children_rows_eq:
  "children_rows n tile x y level scale ty = Inr ch \<Longrightarrow>
   ch = concat (map (\<lambda>ty. map (child_node n tile x y level scale ty) [0..n - 1]) [ty..n - 1])"
proof (induction "nat (n - ty)" arbitrary: ty ch)
  case 0
  then show ?case by (subst (asm) children_rows.simps) simp
next
  case (Suc m)
  then have lt: "ty < n" and m: "m = nat (n - (ty + 1))" by simp_all
  from Suc.prems lt obtain row rest where rest: "children_row n tile x y level scale ty 0 = Inr row"
    "children_rows n tile x y level scale (ty + 1) = Inr rest" "ch = row @ rest"
    by (subst (asm) children_rows.simps) (auto split: sum.splits)
  show ?case
    using Suc.hyps(1) [OF m rest(2)] children_row_eq [OF rest(1)] rest(3) lt
    by (simp add: upto_rec1 [of ty])
qed

lemma fl_sub_Fin [simp]: "fl_sub (Fin a) (Fin b) = Fin (a - b)"
  by (simp add: fl_sub_def)

lemma clampf_unit: "x \<noteq> NaN \<Longrightarrow> \<exists>c. clampf x (Fin 0) (Fin 1) = Fin c \<and> 0 \<le> c \<and> c \<le> 1"
  by (cases x) (auto simp: clampf_def fl_gt_def)

lemma fl_add_half_nan [simp]: "fl_add x (Fin a) = NaN \<longleftrightarrow> x = NaN"
  by (cases x) auto

lemma set_viewport_fields [simp]:
  "ctx_left (set_viewport ctx d l b r t) = clampf (fl_add l (Fin (1 / 2))) (Fin 0) (Fin 1)"
  "ctx_right (set_viewport ctx d l b r t) = clampf (fl_add r (Fin (1 / 2))) (Fin 0) (Fin 1)"
  "ctx_bottom (set_viewport ctx d l b r t) = clampf (fl_add b (Fin (1 / 2))) (Fin 0) (Fin 1)"
  "ctx_top (set_viewport ctx d l b r t) = clampf (fl_add t (Fin (1 / 2))) (Fin 0) (Fin 1)"
  "ctx_mag (set_viewport ctx d l b r t) = powf (fl_sub (fl_add t (Fin (1 / 2))) (fl_add b (Fin (1 / 2)))) (- 2)"
  "ctx_global_density (set_viewport ctx d l b r t) = d"
  "ctx_tiles (set_viewport ctx d l b r t) = ctx_tiles ctx"
  "ctx_nsubtiles (set_viewport ctx d l b r t) = ctx_nsubtiles ctx"
  "ctx_density (set_viewport ctx d l b r t) = ctx_density ctx"
  "ctx_density_width (set_viewport ctx d l b r t) = ctx_density_width ctx"
  "ctx_density_height (set_viewport ctx d l b r t) = ctx_density_height ctx"
  "ctx_npoints (set_viewport ctx d l b r t) = 0"
  "ctx_points (set_viewport ctx d l b r t) = ctx_points ctx"
  by (simp_all add: set_viewport_def Let_def)

lemma set_viewport_finite:
  "l \<noteq> NaN \<Longrightarrow> b \<noteq> NaN \<Longrightarrow> r \<noteq> NaN \<Longrightarrow> t \<noteq> NaN \<Longrightarrow> viewport_finite (set_viewport ctx d l b r t)"
  unfolding viewport_finite_def set_viewport_fields
  using clampf_unit [of "fl_add l (Fin (1 / 2))"] clampf_unit [of "fl_add b (Fin (1 / 2))"]
    clampf_unit [of "fl_add r (Fin (1 / 2))"] clampf_unit [of "fl_add t (Fin (1 / 2))"]
  by auto

lemma index_mem: "index xs k = Inr q \<Longrightarrow> q \<in> set xs"
  by (auto simp: index_def split: if_splits)

lemma not_outside_within:
  assumes "\<not> outside ctx px py" "viewport_finite ctx" "px \<noteq> NaN" "py \<noteq> NaN"
  shows "within_viewport ctx (fl_add (fl_sub px (Fin (1 / 2))) (Fin (1 / 2)))
           (fl_add (fl_sub py (Fin (1 / 2))) (Fin (1 / 2)))"
  using assms unfolding outside_def within_viewport_def viewport_finite_def fl_gt_def
  by (cases px; cases py) auto

lemma root_candidate_Some:
  "root_candidate ctx tile0 factor k = Inr (Some p) \<Longrightarrow>
   \<exists>q d. index (tile_points tile0) k = Inr q \<and> \<not> outside ctx (vx q) (vy q) \<and>
         sample_density ctx (vx q) (vy q) = Inr d \<and> \<not> fl_lt d (fl_mul (of_cint (k + 1)) factor) \<and>
         p = moved (vx q) (vy q) (fl_mul (of_cint k) factor)"
  by (auto simp: root_candidate_def split: sum.splits if_splits)

lemma tile_candidate_Some:
  "tile_candidate ctx tile x y level tileSize factor k = Inr (Some p) \<Longrightarrow>
   \<exists>q d. index (tile_subpts tile) k = Inr q \<and>
         \<not> outside ctx (fl_add x (fl_mul (vx q) tileSize)) (fl_add y (fl_mul (vy q) tileSize)) \<and>
         sample_density ctx (fl_add x (fl_mul (vx q) tileSize)) (fl_add y (fl_mul (vy q) tileSize)) = Inr d \<and>
         \<not> fl_lt d (fl_mul (of_cint (k + tile_npoints tile)) factor) \<and>
         p = moved (fl_add x (fl_mul (vx q) tileSize)) (fl_add y (fl_mul (vy q) tileSize))
               (fl_add (of_cint (level + 1)) (fl_mul (of_cint k) factor))"
  by (auto simp: tile_candidate_def Let_def split: sum.splits if_splits)

lemma moved_sel [simp]:
  "vx (moved px py r) = fl_sub px (Fin (1 / 2))"
  "vy (moved px py r) = fl_sub py (Fin (1 / 2))"
  "rank (moved px py r) = r"
  by (simp_all add: moved_def)

lemma root_emits_within:
  assumes "root_emits ctx = Inr ps" "p \<in> set ps" "viewport_finite ctx" "tiles_without_nan ctx"
  shows "within_viewport ctx (fl_add (vx p) (Fin (1 / 2))) (fl_add (vy p) (Fin (1 / 2)))"
proof -
  from assms(1) obtain tile0 ntests where t0: "index (ctx_tiles ctx) 0 = Inr tile0"
    and c: "collect (root_candidate ctx tile0 (root_factor ctx)) ntests 0 = Inr ps"
    by (auto simp: root_emits_def split: sum.splits option.splits)
  from collect_mem [OF c assms(2)] obtain k where "root_candidate ctx tile0 (root_factor ctx) k = Inr (Some p)"
    by blast
  from root_candidate_Some [OF this] obtain q where q: "index (tile_points tile0) k = Inr q"
    "\<not> outside ctx (vx q) (vy q)" "p = moved (vx q) (vy q) (fl_mul (of_cint k) (root_factor ctx))"
    by blast
  have "vx q \<noteq> NaN \<and> vy q \<noteq> NaN"
    using assms(4) index_mem [OF t0] index_mem [OF q(1)] by (auto simp: tiles_without_nan_def)
  then show ?thesis
    using not_outside_within [OF q(2) assms(3)] q(3) by simp
qed

lemma powf_pos:
  "0 \<le> level \<Longrightarrow> level = 0 \<or> 1 \<le> n \<Longrightarrow> \<exists>s. powf (of_cint n) level = Fin s \<and> 0 < s"
  by (auto simp: powf_def of_cint_def)

lemma tile_size_pos:
  "node_ok ctx node \<Longrightarrow> \<exists>s. tile_size ctx (node_level node) = Fin s \<and> 0 < s"
  using powf_pos [of "node_level node" "ctx_nsubtiles ctx"]
  by (auto simp: node_ok_def tile_size_def)

lemma candidate_point_no_nan:
  assumes "x = Fin a" "ts = Fin s" "0 < s" "q \<noteq> NaN"
  shows "fl_add x (fl_mul q ts) \<noteq> NaN"
  using assms by (cases q) auto

lemma tile_emits_within:
  assumes "tile_emits ctx node tile = Inr ps" "p \<in> set ps" "viewport_finite ctx"
    "index (ctx_tiles ctx) k = Inr tile" "tiles_without_nan ctx" "node_ok ctx node"
  shows "within_viewport ctx (fl_add (vx p) (Fin (1 / 2))) (fl_add (vy p) (Fin (1 / 2)))"
proof -
  let ?ts = "tile_size ctx (node_level node)"
  from assms(1) obtain ntests where
    c: "collect (tile_candidate ctx tile (node_x node) (node_y node) (node_level node) ?ts
                  (tile_factor ctx (node_level node))) ntests 0 = Inr ps"
    by (auto simp: tile_emits_def Let_def split: option.splits)
  from collect_mem [OF c assms(2)] obtain i where
    "tile_candidate ctx tile (node_x node) (node_y node) (node_level node) ?ts
       (tile_factor ctx (node_level node)) i = Inr (Some p)"
    by blast
  from tile_candidate_Some [OF this] obtain q where q: "index (tile_subpts tile) i = Inr q"
    "\<not> outside ctx (fl_add (node_x node) (fl_mul (vx q) ?ts)) (fl_add (node_y node) (fl_mul (vy q) ?ts))"
    "p = moved (fl_add (node_x node) (fl_mul (vx q) ?ts)) (fl_add (node_y node) (fl_mul (vy q) ?ts))
           (fl_add (of_cint (node_level node + 1)) (fl_mul (of_cint i) (tile_factor ctx (node_level node))))"
    by blast
  have nn: "vx q \<noteq> NaN" "vy q \<noteq> NaN"
    using assms(5) index_mem [OF assms(4)] index_mem [OF q(1)] by (auto simp: tiles_without_nan_def)
  from tile_size_pos [OF assms(6)] obtain s where s: "?ts = Fin s" "0 < s" by blast
  from assms(6) obtain a b where ab: "node_x node = Fin a" "node_y node = Fin b"
    by (auto simp: node_ok_def)
  have "fl_add (node_x node) (fl_mul (vx q) ?ts) \<noteq> NaN" "fl_add (node_y node) (fl_mul (vy q) ?ts) \<noteq> NaN"
    using candidate_point_no_nan [OF ab(1) s nn(1)] candidate_point_no_nan [OF ab(2) s nn(2)] by simp_all
  then show ?thesis
    using not_outside_within [OF q(2) assms(3)] q(3) by simp
qed

lemma spawn_children_ok:
  assumes "spawn_children ctx node tile = Inr children" "node_ok ctx node" "c \<in> set children"
  shows "node_ok ctx c"
proof -
  let ?n = "ctx_nsubtiles ctx"
  from tile_size_pos [OF assms(2)] obtain s where s: "tile_size ctx (node_level node) = Fin s" "0 < s"
    by blast
  from assms(2) obtain a b where ab: "node_x node = Fin a" "node_y node = Fin b" "0 \<le> node_level node"
    by (auto simp: node_ok_def)
  from assms(1,3) obtain ty tx where t: "0 \<le> ty" "ty \<le> ?n - 1" "0 \<le> tx" "tx \<le> ?n - 1"
    "c = child_node ?n tile (node_x node) (node_y node) (node_level node + 1)
           (tile_scale ctx (node_level node)) ty tx"
    unfolding spawn_children_def by (auto dest!: children_rows_eq)
  have "1 \<le> ?n" using t by simp
  then obtain sc where "tile_scale ctx (node_level node) = Fin sc"
    using s by (auto simp: tile_scale_def of_cint_def)
  then show ?thesis
    using t ab \<open>1 \<le> ?n\<close> by (simp add: node_ok_def child_node_def of_cint_def)
qed

lemma node_emits_within:
  "node_emits fuel ctx node = Inr ps \<Longrightarrow> node_ok ctx node \<Longrightarrow> viewport_finite ctx \<Longrightarrow>
   tiles_without_nan ctx \<Longrightarrow> p \<in> set ps \<Longrightarrow>
   within_viewport ctx (fl_add (vx p) (Fin (1 / 2))) (fl_add (vy p) (Fin (1 / 2)))"
  "children_emits fuel ctx nodes = Inr ps \<Longrightarrow> \<forall>c \<in> set nodes. node_ok ctx c \<Longrightarrow> viewport_finite ctx \<Longrightarrow>
   tiles_without_nan ctx \<Longrightarrow> p \<in> set ps \<Longrightarrow>
   within_viewport ctx (fl_add (vx p) (Fin (1 / 2))) (fl_add (vy p) (Fin (1 / 2)))"
proof (induction fuel ctx node and fuel ctx nodes arbitrary: ps and ps rule: node_emits_children_emits.induct)
  case (1 ctx node)
  then show ?case by simp
next
  case (2 fuel ctx node)
  show ?case
  proof (cases "misses_viewport ctx node")
    case True
    then show ?thesis using "2.prems" by simp
  next
    case miss: False
    then obtain tile ps1 where tile: "index (ctx_tiles ctx) (node_tile node) = Inr tile"
      and ps1: "tile_emits ctx node tile = Inr ps1"
      using "2.prems"(1) by (auto split: sum.splits)
    note here = tile_emits_within [OF ps1 _ "2.prems"(3) tile "2.prems"(4) "2.prems"(2)]
    show ?thesis
    proof (cases "fl_le (tile_threshold ctx tile (node_level node)) (of_cint (tile_nsubpts tile))")
      case True
      then show ?thesis using miss tile ps1 "2.prems" here by auto
    next
      case deeper: False
      then obtain children qs where ch: "spawn_children ctx node tile = Inr children"
        and qs: "children_emits fuel ctx children = Inr qs" and ps: "ps = ps1 @ qs"
        using miss tile ps1 "2.prems"(1) by (auto split: sum.splits)
      have ok: "\<forall>c \<in> set children. node_ok ctx c"
        using spawn_children_ok [OF ch "2.prems"(2)] by blast
      note IH = "2.IH" [OF miss tile ps1 deeper ch qs ok "2.prems"(3,4)]
      show ?thesis
        using "2.prems"(5) ps here IH by auto
    qed
  qed
next
  case (3 fuel ctx)
  then show ?case by simp
next
  case (4 fuel ctx node rest)
  from "4.prems"(1) obtain ps1 qs where ps1: "node_emits fuel ctx node = Inr ps1"
    and qs: "children_emits fuel ctx rest = Inr qs" and ps: "ps = ps1 @ qs"
    by (auto split: sum.splits)
  show ?case
    using "4.IH"(1) [OF ps1 _ "4.prems"(3,4)] "4.IH"(2) [OF ps1 qs _ "4.prems"(3,4)] "4.prems"(2,5) ps
    by auto
qed

lemma root_node_ok [simp]: "node_ok ctx root_node"
  by (simp add: node_ok_def root_node_def)

lemma generated_generate:
  assumes "par_bluenoise_generate fuel ctx d l b r t = Inr ctx'"
  shows "\<exists>ps qs. root_emits (set_viewport ctx d l b r t) = Inr ps \<and>
           node_emits fuel (set_viewport ctx d l b r t) root_node = Inr qs \<and>
           generated ctx' = ps @ qs \<and>
           ctx' = append_points (set_viewport ctx d l b r t) (ps @ qs) \<and>
           fits (set_viewport ctx d l b r t) (ps @ qs)"
proof -
  from assms obtain rs where rs: "generate_emits fuel (set_viewport ctx d l b r t) = Inr rs"
    "length rs \<le> length (ctx_points ctx)" "ctx' = append_points (set_viewport ctx d l b r t) rs"
    unfolding generate_iff by blast
  have "generated ctx' = rs"
    using rs(2) unfolding rs(3) by (simp add: generated_def append_points_def)
  then show ?thesis
    using rs by (auto simp: generate_emits_def split: sum.splits)
qed

lemma generate_within:
  assumes "par_bluenoise_generate fuel ctx density vleft vbottom vright vtop = Inr ctx'"
    and "tiles_without_nan ctx"
    and "vleft \<noteq> NaN" "vbottom \<noteq> NaN" "vright \<noteq> NaN" "vtop \<noteq> NaN"
    and "p \<in> set (generated ctx')"
  shows "within_viewport (set_viewport ctx density vleft vbottom vright vtop)
           (fl_add (vx p) (Fin (1 / 2))) (fl_add (vy p) (Fin (1 / 2)))"
proof -
  let ?c = "set_viewport ctx density vleft vbottom vright vtop"
  from generated_generate [OF assms(1)] obtain ps qs where ps: "root_emits ?c = Inr ps"
    and qs: "node_emits fuel ?c root_node = Inr qs" and out: "generated ctx' = ps @ qs"
    by blast
  have fin: "viewport_finite ?c"
    using assms(3-6) by (rule set_viewport_finite)
  have nan: "tiles_without_nan ?c"
    using assms(2) by (simp add: tiles_without_nan_def)
  show ?thesis
    using root_emits_within [OF ps _ fin nan] node_emits_within(1) [OF qs _ fin nan] assms(7) out
    by auto
qed

lemma quad_run:
  "par_bluenoise_generate 2 quad_ctx (Fin 8) (Fin (- 1 / 2)) (Fin (- 1 / 2)) (Fin (1 / 2)) (Fin (1 / 2)) =
     Inr (quad_ctx\<lparr>ctx_points :=
              [\<lparr>vx = Fin 0, vy = Fin 0, rank = Fin 0\<rparr>,
               \<lparr>vx = Fin (- (1 / 4)), vy = Fin (- (1 / 4)), rank = Fin 1\<rparr>,
               \<lparr>vx = Fin (1 / 4), vy = Fin (1 / 4), rank = Fin (9 / 8)\<rparr>,
               \<lparr>vx = Fin (- (3 / 8)), vy = Fin (- (3 / 8)), rank = Fin 2\<rparr>,
               \<lparr>vx = Fin (1 / 8), vy = Fin (- (3 / 8)), rank = Fin 2\<rparr>,
               \<lparr>vx = Fin (- (3 / 8)), vy = Fin (1 / 8), rank = Fin 2\<rparr>,
               \<lparr>vx = Fin (1 / 8), vy = Fin (1 / 8), rank = Fin 2\<rparr>,
               origin3],
            ctx_global_density := Fin 8, ctx_left := Fin 0, ctx_bottom := Fin 0, ctx_right := Fin 1,
            ctx_top := Fin 1, ctx_npoints := 7, ctx_mag := Fin 1\<rparr>)"
  by (simp add: sampler_defs quad_defs root_loop.simps tile_loop.simps children_rows.simps
      children_row.simps numeral_2_eq_2)

text \<open>
  C4. Every point that \<^verbatim>\<open>generate\<close> returns lies, moved forward by one half, in the
  viewport moved by one half and clamped to the unit square, when no coordinate of the tile
  set and no bound of the viewport is a NaN.
\<close>

theorem generate_within_viewport:
  assumes "par_bluenoise_generate fuel ctx density vleft vbottom vright vtop = Inr ctx'"
    and "tiles_without_nan ctx"
    and "vleft \<noteq> NaN" "vbottom \<noteq> NaN" "vright \<noteq> NaN" "vtop \<noteq> NaN"
    and "p \<in> set (generated ctx')"
  shows "fl_le (clampf (fl_add vleft (Fin (1 / 2))) (Fin 0) (Fin 1)) (fl_add (vx p) (Fin (1 / 2))) \<and>
         fl_le (fl_add (vx p) (Fin (1 / 2))) (clampf (fl_add vright (Fin (1 / 2))) (Fin 0) (Fin 1)) \<and>
         fl_le (clampf (fl_add vbottom (Fin (1 / 2))) (Fin 0) (Fin 1)) (fl_add (vy p) (Fin (1 / 2))) \<and>
         fl_le (fl_add (vy p) (Fin (1 / 2))) (clampf (fl_add vtop (Fin (1 / 2))) (Fin 0) (Fin 1))"
  using generate_within [OF assms] by (simp add: within_viewport_def)

theorem generate_within_viewport_witness:
  "map_sum id ctx_npoints
     (par_bluenoise_generate 2 quad_ctx (Fin 8) (Fin (- 1 / 2)) (Fin (- 1 / 2)) (Fin (1 / 2)) (Fin (1 / 2))) = Inr 7 \<and>
   tiles_without_nan quad_ctx \<and>
   fl_le (clampf (fl_add (Fin (- 1 / 2)) (Fin (1 / 2))) (Fin 0) (Fin 1)) (fl_add (Fin (1 / 8)) (Fin (1 / 2))) \<and>
   fl_le (fl_add (Fin (1 / 8)) (Fin (1 / 2))) (clampf (fl_add (Fin (1 / 2)) (Fin (1 / 2))) (Fin 0) (Fin 1)) \<and>
   fl_le (clampf (fl_add (Fin (- 1 / 2)) (Fin (1 / 2))) (Fin 0) (Fin 1)) (fl_add (Fin (- (3 / 8))) (Fin (1 / 2))) \<and>
   fl_le (fl_add (Fin (- (3 / 8))) (Fin (1 / 2))) (clampf (fl_add (Fin (1 / 2)) (Fin (1 / 2))) (Fin 0) (Fin 1))"
proof -
  let ?p = "\<lparr>vx = Fin (1 / 8), vy = Fin (- (3 / 8)), rank = Fin 2\<rparr>"
  have p: "?p \<in> set (generated (quad_ctx\<lparr>ctx_points :=
              [\<lparr>vx = Fin 0, vy = Fin 0, rank = Fin 0\<rparr>,
               \<lparr>vx = Fin (- (1 / 4)), vy = Fin (- (1 / 4)), rank = Fin 1\<rparr>,
               \<lparr>vx = Fin (1 / 4), vy = Fin (1 / 4), rank = Fin (9 / 8)\<rparr>,
               \<lparr>vx = Fin (- (3 / 8)), vy = Fin (- (3 / 8)), rank = Fin 2\<rparr>,
               \<lparr>vx = Fin (1 / 8), vy = Fin (- (3 / 8)), rank = Fin 2\<rparr>,
               \<lparr>vx = Fin (- (3 / 8)), vy = Fin (1 / 8), rank = Fin 2\<rparr>,
               \<lparr>vx = Fin (1 / 8), vy = Fin (1 / 8), rank = Fin 2\<rparr>,
               origin3],
            ctx_global_density := Fin 8, ctx_left := Fin 0, ctx_bottom := Fin 0, ctx_right := Fin 1,
            ctx_top := Fin 1, ctx_npoints := 7, ctx_mag := Fin 1\<rparr>))"
    by (simp add: generated_def)
  show ?thesis
    using generate_within_viewport [OF quad_run quad_without_nan(1) _ _ _ _ p] quad_run quad_without_nan(1)
    by simp
qed

subsection \<open>A viewport without width or height\<close>




subsection \<open>The ranks of the passes\<close>

lemma trunc_above: "k < trunc r \<Longrightarrow> 0 \<le> k \<Longrightarrow> real_of_int k + 1 \<le> r"
proof -
  assume k: "k < trunc r" "0 \<le> k"
  have "0 \<le> r"
  proof (rule ccontr)
    assume "\<not> 0 \<le> r"
    then have "trunc r \<le> 0" by (simp add: trunc_def ceiling_le_zero)
    with k show False by simp
  qed
  then have "k + 1 \<le> \<lfloor>r\<rfloor>" using k by (simp add: trunc_def)
  then have "real_of_int (k + 1) \<le> r" by (simp only: le_floor_iff)
  then show ?thesis by simp
qed

lemma mini_bound:
  assumes "float_to_int (mini n x) = Some t" "0 \<le> k" "k < t"
  shows "fl_le (Fin (real_of_int k + 1)) x \<and> k < n"
proof (cases "fl_lt (of_cint n) x")
  case True
  then have "t = n"
    using assms(1) by (auto simp: mini_def float_to_int_def of_cint_def trunc_def split: if_splits)
  then show ?thesis
    using True assms(3) by (cases x) (auto simp: of_cint_def)
next
  case False
  then obtain v where v: "x = Fin v" "t = trunc v"
    using assms(1) by (cases x) (auto simp: mini_def float_to_int_def split: if_splits)
  have "real_of_int k + 1 \<le> v"
    using trunc_above [of k v] assms(2,3) v by simp
  moreover have "v \<le> real_of_int n"
    using False v by (simp add: of_cint_def)
  ultimately show ?thesis
    using v by simp
qed

lemma root_rank_bounds:
  assumes "fl_le (Fin (real_of_int k + 1)) (fl_mul mag d)" "0 \<le> k"
  shows "fl_le (Fin 0) (fl_mul (of_cint k) (fl_div (fl_div (Fin 1) mag) d)) \<and>
         fl_lt (fl_mul (of_cint k) (fl_div (fl_div (Fin 1) mag) d)) (Fin 1)"
  using assms
  by (cases mag; cases d) (auto simp: of_cint_def field_simps split: if_splits)

lemma factor_of_infinite_threshold:
  assumes "fl_mul (fl_div mag D) d = PInf" "D = PInf \<or> (\<exists>e. D = Fin e \<and> 0 \<le> e)"
  shows "fl_div (fl_mul (fl_div (Fin 1) mag) D) d = Fin 0"
  using assms by (cases mag; cases d; cases D) (auto split: if_splits)

lemma factor_of_finite_threshold:
  assumes "fl_mul (fl_div mag D) d = Fin w" "w \<noteq> 0"
  shows "fl_div (fl_mul (fl_div (Fin 1) mag) D) d = Fin (1 / w)"
  using assms by (cases mag; cases d; cases D) (auto split: if_splits)

lemma tile_rank_bounds:
  assumes "fl_le (Fin (real_of_int k + 1)) (fl_sub (fl_mul (fl_div mag D) d) (of_cint np))"
    and "0 \<le> k" "0 \<le> np" "D = PInf \<or> (\<exists>e. D = Fin e \<and> 0 \<le> e)"
  shows "fl_le (of_cint (L + 1)) (fl_add (of_cint (L + 1)) (fl_mul (of_cint k) (fl_div (fl_mul (fl_div (Fin 1) mag) D) d))) \<and>
         fl_lt (fl_add (of_cint (L + 1)) (fl_mul (of_cint k) (fl_div (fl_mul (fl_div (Fin 1) mag) D) d)))
           (of_cint (L + 2))"
proof -
  let ?T = "fl_mul (fl_div mag D) d"
  let ?F = "fl_div (fl_mul (fl_div (Fin 1) mag) D) d"
  from assms(1) consider "?T = PInf" | w where "?T = Fin w" "real_of_int k + 1 + real_of_int np \<le> w"
    by (cases ?T) (auto simp: fl_sub_def of_cint_def)
  then have "\<exists>f. ?F = Fin f \<and> 0 \<le> real_of_int k * f \<and> real_of_int k * f < 1"
  proof cases
    case 1
    then show ?thesis
      using factor_of_infinite_threshold [OF 1 assms(4)] by simp
  next
    case 2
    then have w: "0 < w" "real_of_int k < w" using assms(2,3) by simp_all
    then have "?F = Fin (1 / w)"
      using factor_of_finite_threshold [OF 2(1)] by simp
    then show ?thesis
      using w assms(2) by simp
  qed
  then show ?thesis
    by (auto simp: of_cint_def)
qed

lemma even_power_nonneg: "0 \<le> real_of_int n ^ nat (2 * l)"
proof (cases "0 < l")
  case True
  then have "nat (2 * l) = 2 * nat l" by simp
  then show ?thesis by (simp add: power_mult)
next
  case False
  then show ?thesis by simp
qed

lemma tile_depth_cases:
  "tile_depth ctx level = PInf \<or> (\<exists>e. tile_depth ctx level = Fin e \<and> 0 \<le> e)"
  using even_power_nonneg [of "ctx_nsubtiles ctx" level] even_power_nonneg [of "ctx_nsubtiles ctx" "- level"]
  by (auto simp: tile_depth_def powf_def of_cint_def)

lemma fl_lt_le_trans: "fl_lt a b \<Longrightarrow> fl_le b c \<Longrightarrow> fl_lt a c"
  by (cases a; cases b; cases c) auto

lemma fl_le_trans: "fl_le a b \<Longrightarrow> fl_le b c \<Longrightarrow> fl_le a c"
  by (cases a; cases b; cases c) auto

lemma new_points_append_points:
  "fits ctx ps \<Longrightarrow> new_points ctx (append_points ctx ps) = ps"
  by (simp add: new_points_def generated_append_points) (simp add: generated_def fits_def)

lemma root_pass_ranks:
  assumes "root_pass ctx = Inr ctx'" "fits ctx []" "p \<in> set (new_points ctx ctx')"
  shows "fl_le (Fin 0) (rank p) \<and> fl_lt (rank p) (Fin 1)"
proof -
  from assms(1,2) obtain ps where ps: "root_emits ctx = Inr ps" "fits ctx ps" "ctx' = append_points ctx ps"
    by (auto simp: root_pass_iff)
  then obtain tile0 ntests where t0: "index (ctx_tiles ctx) 0 = Inr tile0"
    and nt: "float_to_int (mini (tile_npoints tile0) (fl_mul (ctx_mag ctx) (ctx_global_density ctx))) = Some ntests"
    and c: "collect (root_candidate ctx tile0 (root_factor ctx)) ntests 0 = Inr ps"
    by (auto simp: root_emits_def split: sum.splits option.splits)
  have "p \<in> set ps"
    using assms(3) ps by (simp add: new_points_append_points)
  from collect_mem [OF c this] obtain k where k: "0 \<le> k" "k < ntests"
    "root_candidate ctx tile0 (root_factor ctx) k = Inr (Some p)"
    by blast
  from root_candidate_Some [OF k(3)] have r: "rank p = fl_mul (of_cint k) (root_factor ctx)"
    by auto
  from mini_bound [OF nt k(1,2)] show ?thesis
    unfolding r root_factor_def using k(1) by (intro root_rank_bounds) simp_all
qed

lemma tile_pass_ranks:
  assumes "tile_pass ctx node tile = Inr ctx'" "fits ctx []" "0 \<le> tile_npoints tile"
    "p \<in> set (new_points ctx ctx')"
  shows "fl_le (of_cint (node_level node + 1)) (rank p) \<and> fl_lt (rank p) (of_cint (node_level node + 2))"
proof -
  let ?L = "node_level node"
  from assms(1,2) obtain ps where ps: "tile_emits ctx node tile = Inr ps" "fits ctx ps"
    "ctx' = append_points ctx ps"
    by (auto simp: tile_pass_iff)
  then obtain ntests where
    nt: "float_to_int (mini (tile_nsubpts tile) (tile_threshold ctx tile ?L)) = Some ntests"
    and c: "collect (tile_candidate ctx tile (node_x node) (node_y node) ?L (tile_size ctx ?L)
                      (tile_factor ctx ?L)) ntests 0 = Inr ps"
    by (auto simp: tile_emits_def Let_def split: option.splits)
  have "p \<in> set ps"
    using assms(4) ps by (simp add: new_points_append_points)
  from collect_mem [OF c this] obtain k where k: "0 \<le> k" "k < ntests"
    "tile_candidate ctx tile (node_x node) (node_y node) ?L (tile_size ctx ?L) (tile_factor ctx ?L) k
       = Inr (Some p)"
    by blast
  from tile_candidate_Some [OF k(3)]
  have r: "rank p = fl_add (of_cint (?L + 1)) (fl_mul (of_cint k) (tile_factor ctx ?L))"
    by auto
  from mini_bound [OF nt k(1,2)] have "fl_le (Fin (real_of_int k + 1)) (tile_threshold ctx tile ?L)"
    by simp
  then have th: "fl_le (Fin (real_of_int k + 1))
      (fl_sub (fl_mul (fl_div (ctx_mag ctx) (tile_depth ctx ?L)) (ctx_global_density ctx))
         (of_cint (tile_npoints tile)))"
    by (simp only: tile_threshold_def)
  show ?thesis
    unfolding r tile_factor_def
    by (rule tile_rank_bounds [OF th k(1) assms(3) tile_depth_cases])
qed


subsection \<open>The density builders and the sampling\<close>

lemma sample_density_no_field: "ctx_density ctx = None \<Longrightarrow> sample_density ctx x y = Inr (Fin 1)"
  by (simp add: sample_density_def)

lemma one_pixel_from_gray: "par_bluenoise_density_from_gray scenario_ctx [0] 1 1 1 = Inr one_pixel_ctx"
  by (simp add: par_bluenoise_density_from_gray_def one_pixel_ctx_def index_def of_cint_def)

text \<open>
  C9 fails on the code. A grey image of one black pixel gives a density of one cell, and
  the query at the centre of the unit square clamps both indices to \<open>width - 2 = -1\<close>: the
  read is at \<open>density[-2]\<close>, outside the array. With that density attached,
  \<^verbatim>\<open>generate\<close> on the scenario stops at the same read.
\<close>

theorem sample_density_one_pixel:
  "par_bluenoise_density_from_gray scenario_ctx [0] 1 1 1 = Inr one_pixel_ctx \<and>
   ctx_density one_pixel_ctx = Some [Fin 1] \<and>
   clampi 0 0 (ctx_density_width one_pixel_ctx - 2) = - 1 \<and>
   sample_density one_pixel_ctx (Fin (1 / 2)) (Fin (1 / 2)) = Inl OutOfBounds \<and>
   par_bluenoise_generate 1 one_pixel_ctx (Fin 4) (Fin (- 1 / 2)) (Fin (- 1 / 2)) (Fin (1 / 2)) (Fin (1 / 2))
     = Inl OutOfBounds"
proof -
  have "sample_density one_pixel_ctx (Fin (1 / 2)) (Fin (1 / 2)) = Inl OutOfBounds"
    by (simp add: sample_density_def one_pixel_ctx_def Let_def maxi_def of_cint_def float_to_int_def
        trunc_def clampi_def index_def signed_divide_int_def)
  moreover have "par_bluenoise_generate 1 one_pixel_ctx (Fin 4) (Fin (- 1 / 2)) (Fin (- 1 / 2))
      (Fin (1 / 2)) (Fin (1 / 2)) = Inl OutOfBounds"
    by (simp add: sampler_defs scenario_defs one_pixel_ctx_def root_loop.simps maxi_def clampi_def
        signed_divide_int_def)
  ultimately show ?thesis
    using one_pixel_from_gray by (simp add: one_pixel_ctx_def clampi_def)
qed

lemma density_from_color_assert:
  "4 < bpp \<Longrightarrow>
   par_bluenoise_density_from_color ctx pixels width height bpp background_color invert = Inl AssertionFailed"
  by (simp add: par_bluenoise_density_from_color_def Let_def)

text \<open>
  C8 fails on the code for a stride below four. The image of one pixel of one byte is a
  buffer of one byte, and the builder reads the four bytes of an \<^verbatim>\<open>unsigned int\<close> at the
  pixel: three of them lie past the end of the buffer. With three more bytes behind the
  pixel the same call succeeds.
\<close>

theorem density_from_color_one_byte:
  "par_bluenoise_density_from_color ctx [0] 1 1 1 0 0 = Inl OutOfBounds \<and>
   par_bluenoise_density_from_color ctx [0, 7, 7, 7] 1 1 1 0 0 =
     Inr (ctx\<lparr>ctx_density_width := 1, ctx_density_height := 1, ctx_density := Some [Fin 0]\<rparr>)"
  by (simp add: par_bluenoise_density_from_color_def color_mask_def read_uint_def Let_def of_cint_def)

subsection \<open>The root pass\<close>

lemma collect_map_filter:
  "collect f n i = Inr ps \<Longrightarrow>
   ps = List.map_filter (\<lambda>k. case f k of Inl e \<Rightarrow> None | Inr r \<Rightarrow> r) [i..n - 1] \<and>
   (\<forall>k. i \<le> k \<and> k < n \<longrightarrow> (\<exists>r. f k = Inr r))"
proof (induction "nat (n - i)" arbitrary: i ps)
  case 0
  then show ?case by (subst (asm) collect.simps) (auto simp: List.map_filter_simps)
next
  case (Suc m)
  then have lt: "i < n" and m: "m = nat (n - (i + 1))" by simp_all
  from Suc.prems(1) lt obtain r rest where r: "f i = Inr r" "collect f n (i + 1) = Inr rest"
    "ps = (case r of None \<Rightarrow> rest | Some q \<Rightarrow> q # rest)"
    by (subst (asm) collect.simps) (auto split: sum.splits)
  note IH = Suc.hyps(1) [OF m r(2)]
  have "\<exists>r. f k = Inr r" if "i \<le> k" "k < n" for k
  proof (cases "k = i")
    case True
    then show ?thesis using r(1) by simp
  next
    case False
    then show ?thesis using IH that by simp
  qed
  moreover have "ps = List.map_filter (\<lambda>k. case f k of Inl e \<Rightarrow> None | Inr r \<Rightarrow> r) [i..n - 1]"
    using IH r lt by (simp add: upto_rec1 [of i] List.map_filter_simps split: option.split)
  ultimately show ?case by blast
qed

lemma map_filter_append: "List.map_filter f (xs @ ys) = List.map_filter f xs @ List.map_filter f ys"
  by (simp add: List.map_filter_def)

lemma map_filter_cong: "(\<And>x. x \<in> set xs \<Longrightarrow> f x = g x) \<Longrightarrow> List.map_filter f xs = List.map_filter g xs"
  by (induction xs) (auto simp: List.map_filter_simps split: option.splits)

lemma map_filter_None: "(\<And>x. x \<in> set xs \<Longrightarrow> f x = None) \<Longrightarrow> List.map_filter f xs = []"
  by (induction xs) (simp_all add: List.map_filter_simps)

lemma upto_split_at: "0 \<le> a \<Longrightarrow> a \<le> b + 1 \<Longrightarrow> [0..b] = [0..a - 1] @ [a..b]"
proof -
  assume a: "0 \<le> a" "a \<le> b + 1"
  show ?thesis
  proof (cases "a \<le> b")
    case True
    then show ?thesis using a upto_split1 [of 0 a b] by simp
  next
    case False
    then have "a = b + 1" using a by simp
    then show ?thesis by simp
  qed
qed

lemma mini_trunc_le: "float_to_int (mini n x) = Some t \<Longrightarrow> t \<le> n"
proof (cases "fl_lt (of_cint n) x")
  case True
  assume "float_to_int (mini n x) = Some t"
  then show ?thesis
    using True by (auto simp: mini_def float_to_int_def of_cint_def trunc_def split: if_splits)
next
  case False
  assume t: "float_to_int (mini n x) = Some t"
  then obtain v where v: "x = Fin v" "t = trunc v"
    using False by (cases x) (auto simp: mini_def float_to_int_def split: if_splits)
  have "v \<le> real_of_int n"
    using False v by (simp add: of_cint_def)
  then show ?thesis
    unfolding v trunc_def by (auto simp: ceiling_le_iff floor_le_iff intro: order_trans)
qed

lemma mini_fractional:
  assumes "float_to_int (mini n x) = Some t" "0 \<le> k" "t \<le> k" "fl_lt (of_cint k) (mini n x)"
  shows "\<exists>v. x = Fin v \<and> real_of_int k < v \<and> v < real_of_int k + 1"
proof (cases "fl_lt (of_cint n) x")
  case True
  then have "t = n" "mini n x = of_cint n"
    using assms(1) by (auto simp: mini_def float_to_int_def of_cint_def trunc_def split: if_splits)
  then show ?thesis
    using assms(3,4) by (simp add: of_cint_def)
next
  case False
  then obtain v where v: "x = Fin v" "t = trunc v" "mini n x = Fin v"
    using assms(1) by (cases x) (auto simp: mini_def float_to_int_def split: if_splits)
  have kv: "real_of_int k < v"
    using assms(4) v by (simp add: of_cint_def)
  then have "0 \<le> v" using assms(2) by simp
  then have "\<lfloor>v\<rfloor> \<le> k" using assms(3) v by (simp add: trunc_def)
  then have "v < real_of_int k + 1" by (simp add: floor_le_iff)
  then show ?thesis using v kv by simp
qed

lemma sample_density_unit:
  assumes "density_in_unit ctx" "sample_density ctx px py = Inr d"
  shows "\<exists>s. d = Fin s \<and> s \<le> 1"
proof (cases "ctx_density ctx")
  case None
  then show ?thesis using assms(2) by (auto simp: sample_density_def)
next
  case (Some density)
  then have "d \<in> set density"
    using assms(2) by (auto simp: sample_density_def Let_def split: option.splits dest: index_mem)
  then have "case d of Fin s \<Rightarrow> s \<le> 1 | _ \<Rightarrow> False"
    using assms(1) Some by (simp add: density_in_unit_def)
  then show ?thesis by (cases d) simp_all
qed

lemma factor_inverse:
  "fl_le (Fin 1) (fl_mul mag d) \<Longrightarrow>
   fl_div (fl_div (Fin 1) mag) d = fl_div (Fin 1) (fl_mul mag d) \<and>
   (\<exists>f. fl_div (Fin 1) (fl_mul mag d) = Fin f \<and> 0 \<le> f)"
  by (cases mag; cases d) (auto split: if_splits simp: zero_less_mult_iff)

lemma within_iff_not_outside:
  assumes "viewport_finite ctx" "px \<noteq> NaN" "py \<noteq> NaN"
  shows "inside_rect (ctx_left ctx) (ctx_bottom ctx) (ctx_right ctx) (ctx_top ctx) px py \<longleftrightarrow> \<not> outside ctx px py"
  using assms unfolding outside_def inside_rect_def viewport_finite_def fl_gt_def
  by (cases px; cases py) auto

lemma mini_lt:
  assumes "float_to_int (mini n x) = Some t" "0 \<le> k" "k < t"
  shows "fl_lt (of_cint k) (mini n x)"
proof -
  from assms(1) obtain v where v: "mini n x = Fin v" "t = trunc v"
    by (cases "mini n x") (auto simp: float_to_int_def split: if_splits)
  from trunc_above [of k v] assms(2,3) v have "real_of_int k + 1 \<le> v" by simp
  then show ?thesis using v by (simp add: of_cint_def)
qed

lemma sample_density_set_viewport [simp]:
  "sample_density (set_viewport ctx d l b r t) = sample_density ctx"
  by (simp add: sample_density_def fun_eq_iff Let_def cong: option.case_cong)

lemma unit_clamp_clampf: "unit_clamp v = clampf v (Fin 0) (Fin 1)"
  by (cases v) (auto simp: unit_clamp_def clampf_def fl_gt_def)

lemma set_viewport_rect:
  "inside_rect (clamp01 l) (clamp01 b) (clamp01 r) (clamp01 t) =
   inside_rect (ctx_left (set_viewport ctx d l b r t)) (ctx_bottom (set_viewport ctx d l b r t))
     (ctx_right (set_viewport ctx d l b r t)) (ctx_top (set_viewport ctx d l b r t))"
  by (simp add: clamp01_def unit_clamp_clampf)

lemma root_point_agrees:
  assumes nt: "float_to_int (mini (tile_npoints tile0) (fl_mul (spec_mag b t) density)) = Some nt"
    and k: "0 \<le> k" "k < nt"
    and t0: "index (ctx_tiles ctx) 0 = Inr tile0"
    and cand: "root_candidate (set_viewport ctx density l b r t) tile0
                 (root_factor (set_viewport ctx density l b r t)) k = Inr rr"
    and u: "density_in_unit ctx" and nn: "tiles_without_nan ctx"
    and v: "l \<noteq> NaN" "b \<noteq> NaN" "r \<noteq> NaN" "t \<noteq> NaN"
  shows "spec_root_point ctx density l b r t k = rr"
proof -
  let ?c = "set_viewport ctx density l b r t"
  let ?m = "fl_mul (spec_mag b t) density"
  have tile0: "ctx_tiles ctx ! 0 = tile0" "tile0 \<in> set (ctx_tiles ctx)"
    using t0 by (auto simp: index_def split: if_splits)
  from mini_bound [OF nt k] have kb: "fl_le (Fin (real_of_int k + 1)) ?m" by simp
  have "fl_le (Fin 1) (Fin (real_of_int k + 1))" using k(1) by simp
  then have "fl_le (Fin 1) ?m" using kb by (rule fl_le_trans)
  from factor_inverse [OF this] obtain f where f: "root_factor ?c = fl_div (Fin 1) ?m"
    "fl_div (Fin 1) ?m = Fin f" "0 \<le> f"
    by (auto simp: root_factor_def spec_mag_def)
  have thr: "fl_lt (of_cint k) (mini (tile_npoints tile0) ?m)"
    using mini_lt [OF nt k] .
  from cand obtain p where p: "index (tile_points tile0) k = Inr p"
    by (auto simp: root_candidate_def split: sum.splits)
  have pn: "vx p \<noteq> NaN" "vy p \<noteq> NaN"
    using nn tile0(2) index_mem [OF p] by (auto simp: tiles_without_nan_def)
  have fin: "viewport_finite ?c"
    using v by (rule set_viewport_finite)
  have ins: "inside_rect (clamp01 l) (clamp01 b) (clamp01 r) (clamp01 t) (vx p) (vy p) \<longleftrightarrow>
      \<not> outside ?c (vx p) (vy p)"
    unfolding set_viewport_rect [of l b r t ctx density] using fin pn by (rule within_iff_not_outside)
  show ?thesis
  proof (cases "outside ?c (vx p) (vy p)")
    case True
    then show ?thesis
      using cand p ins thr tile0 by (simp add: root_candidate_def spec_root_point_def Let_def)
  next
    case False
    then obtain d where d: "sample_density ctx (vx p) (vy p) = Inr d"
      using cand p by (auto simp: root_candidate_def split: sum.splits)
    from sample_density_unit [OF u d] obtain s where s: "d = Fin s" "s \<le> 1" by blast
    show ?thesis
      using cand p ins thr tile0 False d s f
      by (auto simp: root_candidate_def spec_root_point_def Let_def sampled_at_least_def moved_def
          of_cint_def split: if_splits)
  qed
qed

lemma root_point_beyond:
  assumes nt: "float_to_int (mini (tile_npoints (ctx_tiles ctx ! 0)) (fl_mul (spec_mag b t) density)) = Some nt"
    and k: "0 \<le> k" "nt \<le> k"
    and u: "density_in_unit ctx"
  shows "spec_root_point ctx density l b r t k = None"
proof (cases "fl_lt (of_cint k) (mini (tile_npoints (ctx_tiles ctx ! 0)) (fl_mul (spec_mag b t) density))")
  case False
  then show ?thesis by (simp add: spec_root_point_def Let_def)
next
  case True
  from mini_fractional [OF nt k True] obtain v where v: "fl_mul (spec_mag b t) density = Fin v"
    "real_of_int k < v" "v < real_of_int k + 1"
    by blast
  then have pos: "0 < v" using k(1) by simp
  have big: "\<not> (real_of_int k + 1) * (1 / v) \<le> s" if "s \<le> 1" for s
  proof -
    have "1 < (real_of_int k + 1) / v" using v(3) pos by simp
    then show ?thesis using that by simp
  qed
  have "\<not> sampled_at_least ctx px py (fl_mul (of_cint (k + 1)) (fl_div (Fin 1) (Fin v)))" for px py
  proof (cases "sample_density ctx px py")
    case (Inl e)
    then show ?thesis by (simp add: sampled_at_least_def)
  next
    case (Inr d)
    from sample_density_unit [OF u Inr] obtain s where "d = Fin s" "s \<le> 1" by blast
    then show ?thesis
      using Inr pos big [of s] by (simp add: sampled_at_least_def of_cint_def)
  qed
  then show ?thesis
    using v(1) by (simp add: spec_root_point_def Let_def split: sum.splits)
qed

lemma root_emits_spec:
  assumes e: "root_emits (set_viewport ctx density l b r t) = Inr ps"
    and u: "density_in_unit ctx" and nn: "tiles_without_nan ctx"
    and v: "l \<noteq> NaN" "b \<noteq> NaN" "r \<noteq> NaN" "t \<noteq> NaN"
  shows "ps = spec_root_pass ctx density l b r t"
proof -
  let ?c = "set_viewport ctx density l b r t"
  let ?G = "spec_root_point ctx density l b r t"
  from e obtain tile0 nt where t0: "index (ctx_tiles ctx) 0 = Inr tile0"
    and nt: "float_to_int (mini (tile_npoints tile0) (fl_mul (spec_mag b t) density)) = Some nt"
    and c: "collect (root_candidate ?c tile0 (root_factor ?c)) nt 0 = Inr ps"
    by (auto simp: root_emits_def spec_mag_def split: sum.splits option.splits)
  let ?F = "\<lambda>k. case root_candidate ?c tile0 (root_factor ?c) k of Inl e \<Rightarrow> None | Inr r \<Rightarrow> r"
  let ?count = "tile_npoints tile0"
  have tile0: "ctx_tiles ctx ! 0 = tile0"
    using t0 by (auto simp: index_def split: if_splits)
  from collect_map_filter [OF c] have ps: "ps = List.map_filter ?F [0..nt - 1]"
    and all: "\<And>k. 0 \<le> k \<Longrightarrow> k < nt \<Longrightarrow> \<exists>rr. root_candidate ?c tile0 (root_factor ?c) k = Inr rr"
    by blast+
  have agree: "?F k = ?G k" if "k \<in> set [0..nt - 1]" for k
  proof -
    from that have k: "0 \<le> k" "k < nt" by simp_all
    from all [OF k] obtain rr where rr: "root_candidate ?c tile0 (root_factor ?c) k = Inr rr" by blast
    from root_point_agrees [OF nt k t0 rr u nn v] rr show ?thesis by simp
  qed
  have beyond: "?G k = None" if "k \<in> set [max 0 nt..?count - 1]" for k
    using that root_point_beyond [OF _ _ _ u, where b = b and t = t and density = density and nt = nt
        and k = k and l = l and r = r] nt tile0 by simp
  have le: "nt \<le> ?count" using nt by (rule mini_trunc_le)
  have "List.map_filter ?G [0..?count - 1] = List.map_filter ?G [0..nt - 1]"
  proof (cases "0 < nt")
    case True
    then have "[0..?count - 1] = [0..nt - 1] @ [max 0 nt..?count - 1]"
      using le upto_split_at [of nt "?count - 1"] by simp
    then show ?thesis
      using map_filter_None [of "[max 0 nt..?count - 1]" ?G, OF beyond] by (simp add: map_filter_append)
  next
    case False
    then have "[0..nt - 1] = []" "max 0 nt = 0" by simp_all
    then show ?thesis
      using map_filter_None [of "[max 0 nt..?count - 1]" ?G, OF beyond] by simp
  qed
  also have "\<dots> = List.map_filter ?F [0..nt - 1]"
    using agree by (intro map_filter_cong) simp
  finally show ?thesis
    using ps tile0 by (simp add: spec_root_pass_def)
qed

text \<open>
  With exact numbers, then, the root pass of the model writes the points of
  \<open>spec_root_pass\<close>: the one index that the specification tests beyond the whole number of
  the source has a bound above 1. In single precision that margin can be rounded away.
\<close>

subsection \<open>The root pass in single precision\<close>

lemma round_to_binade:
  assumes "2 powi e \<le> \<bar>r\<bar>" "\<bar>r\<bar> < 2 powi (e + 1)" "emin \<le> e"
  shows "round_to p emin r =
     (let v = of_int (nearest_even (r / 2 powi (e - int p + 1))) * 2 powi (e - int p + 1)
      in if 2 powi (2 - emin) \<le> \<bar>v\<bar> then (if 0 < r then PInf else NInf) else Fin v)"
proof -
  have pos: "0 < \<bar>r\<bar>"
    using assms(1) by (smt (verit) zero_less_power_int)
  have "(2 :: real) powr real_of_int e = 2 powi e" "(2 :: real) powr (real_of_int e + 1) = 2 powi (e + 1)"
    using powr_real_of_int' [of 2 e] powr_real_of_int' [of 2 "e + 1"] by simp_all
  then have "\<lfloor>log 2 \<bar>r\<bar>\<rfloor> = e"
    using assms(1,2) pos by (simp add: floor_log_eq_powr_iff)
  then show ?thesis
    using pos assms(3) by (simp add: round_to_def Let_def max_def)
qed

lemma to_float_values:
  "to_float (Fin 0) = Fin 0"
  "to_float (Fin 1) = Fin 1"
  "to_float (Fin 8) = Fin 8"
  "to_float (Fin (1 / 8)) = Fin (1 / 8)"
  "to_float (Fin (11 / 16)) = Fin (11 / 16)"
  "to_float (Fin (256 / 121)) = Fin (8873899 / 4194304)"
  "to_float (Fin (1073741779 / 1073741824)) = Fin (16777215 / 16777216)"
  using round_to_binade [of 0 1 "- 126" 24] round_to_binade [of 3 8 "- 126" 24]
    round_to_binade [of "- 3" "1 / 8" "- 126" 24] round_to_binade [of "- 1" "11 / 16" "- 126" 24]
    round_to_binade [of 1 "256 / 121" "- 126" 24]
    round_to_binade [of "- 1" "1073741779 / 1073741824" "- 126" 24]
  by (simp_all add: to_float_def round_to_def nearest_even_def Let_def)

lemma to_double_values:
  "to_double (Fin 0) = Fin 0"
  "to_double (Fin 1) = Fin 1"
  "to_double (Fin (11 / 16)) = Fin (11 / 16)"
  using round_to_binade [of 0 1 "- 1022" 53] round_to_binade [of "- 1" "11 / 16" "- 1022" 53]
  by (simp_all add: to_double_def round_to_def nearest_even_def Let_def)

lemma quad_zoom_view:
  "set_viewport32 quad_ctx (Fin (121 / 256)) (Fin (- 1 / 2)) (Fin (- 1 / 2)) (Fin (1 / 2)) (Fin (3 / 16)) =
     quad_ctx\<lparr>ctx_global_density := Fin (121 / 256), ctx_left := Fin 0, ctx_bottom := Fin 0,
       ctx_right := Fin 1, ctx_top := Fin (11 / 16), ctx_mag := Fin (8873899 / 4194304)\<rparr>"
  by (simp add: set_viewport32_def Let_def add_half_def subf_def powf32_def powf_def fl_sub_def
      to_double_values to_float_values clampf_def fl_gt_def quad_ctx_def power2_eq_square)

lemma quad_zoom_tests:
  "float_to_int (mini32 1 (mulf (Fin (8873899 / 4194304)) (Fin (121 / 256)))) = Some 0"
  by (simp add: mini32_def mulf_def int_to_float_def of_cint_def to_float_values float_to_int_def trunc_def)

lemma quad_zoom_spec:
  "spec_root_pass quad_ctx (Fin (121 / 256)) (Fin (- 1 / 2)) (Fin (- 1 / 2)) (Fin (1 / 2)) (Fin (3 / 16)) =
     [\<lparr>vx = Fin 0, vy = Fin 0, rank = Fin 0\<rparr>]"
  by (simp add: spec_root_pass_def spec_root_point_def spec_mag_def quad_defs Let_def
      List.map_filter_simps upto.simps mini_def of_cint_def powf_def index_def clamp01_def unit_clamp_def
      fl_sub_def inside_rect_def sampled_at_least_def sample_density_def power2_eq_square)

declare root_loop32.simps [simp del]

text \<open>
  C1, as the specification states it, fails. On the second scene,
  \<^verbatim>\<open>generate(0.47265625, -0.5, -0.5, 0.5, 0.1875)\<close> has a viewport of the height \<open>11/16\<close>.
  The magnification \<open>256/121\<close> is rounded to \<open>8873899/4194304\<close>, its product with the
  density \<open>121/256\<close> to \<open>1 - 2^-24\<close>, and the conversion to \<^verbatim>\<open>int\<close> leaves no test: the
  root pass of the source writes nothing. In the specification
  \<open>min(count, mag * density)\<close> is 1, and the point at the centre, with the bound \<open>1 * (1 / 1)\<close>
  and the density 1, is accepted.
\<close>

theorem root_pass_counterexample:
  "map_sum id generated
     (root_pass32 (set_viewport32 quad_ctx (Fin (121 / 256)) (Fin (- 1 / 2)) (Fin (- 1 / 2)) (Fin (1 / 2))
        (Fin (3 / 16)))) = Inr [] \<and>
   spec_root_pass quad_ctx (Fin (121 / 256)) (Fin (- 1 / 2)) (Fin (- 1 / 2)) (Fin (1 / 2)) (Fin (3 / 16)) =
     [\<lparr>vx = Fin 0, vy = Fin 0, rank = Fin 0\<rparr>]"
  unfolding quad_zoom_view quad_zoom_spec
  by (simp add: root_pass32_def index_def quad_ctx_def quad_tile_def quad_zoom_tests root_loop32.simps
      generated_def)

text \<open>
  Read on the values that the source computes, the formula of the specification fails as
  well: at the magnification 1 and the density \<open>7 - 2^-21\<close>, a float, a root tile of at
  least seven points has six tests; the index 6 is below \<open>min(count, mag * density)\<close>, and
  its bound \<open>(6 + 1) * factor\<close> is rounded to 1, which a density of 1 reaches.
\<close>

lemma computed_bound_counterexample:
  "float_to_int (mini32 7 (mulf (Fin 1) (Fin (14680063 / 2097152)))) = Some 6 \<and>
   fl_lt (int_to_float 6) (mini32 7 (mulf (Fin 1) (Fin (14680063 / 2097152)))) \<and>
   mulf (int_to_float (6 + 1)) (divf (divf (Fin 1) (Fin 1)) (Fin (14680063 / 2097152))) = Fin 1"
proof -
  have v: "to_float (Fin 1) = Fin 1" "to_float (Fin 6) = Fin 6" "to_float (Fin 7) = Fin 7"
    "to_float (Fin (14680063 / 2097152)) = Fin (14680063 / 2097152)"
    "to_float (Fin (2097152 / 14680063)) = Fin (9586981 / 67108864)"
    "to_float (Fin (67108867 / 67108864)) = Fin 1"
    using round_to_binade [of 0 1 "- 126" 24] round_to_binade [of 2 6 "- 126" 24]
      round_to_binade [of 2 7 "- 126" 24] round_to_binade [of 2 "14680063 / 2097152" "- 126" 24]
      round_to_binade [of "- 3" "2097152 / 14680063" "- 126" 24]
      round_to_binade [of 0 "67108867 / 67108864" "- 126" 24]
    by (simp_all add: to_float_def nearest_even_def Let_def)
  show ?thesis
    by (simp add: mini32_def mulf_def divf_def int_to_float_def of_cint_def v float_to_int_def trunc_def)
qed

lemma round_to_no_nan: "round_to p emin r \<noteq> NaN"
  by (simp add: round_to_def Let_def)

lemma to_float_nan [simp]: "to_float x = NaN \<longleftrightarrow> x = NaN"
  by (cases x) (simp_all add: to_float_def round_to_no_nan)

lemma to_double_nan [simp]: "to_double x = NaN \<longleftrightarrow> x = NaN"
  by (cases x) (simp_all add: to_double_def round_to_no_nan)

lemma add_half_nan [simp]: "add_half x = NaN \<longleftrightarrow> x = NaN"
  by (cases x) (simp_all add: add_half_def)

lemma clampf_unit_finite: "x \<noteq> NaN \<Longrightarrow> \<exists>a. clampf x (Fin 0) (Fin 1) = Fin a"
  by (cases x) (auto simp: clampf_def fl_gt_def)

lemma set_viewport32_fields [simp]:
  "ctx_left (set_viewport32 ctx d l b r t) = clampf (add_half l) (Fin 0) (Fin 1)"
  "ctx_right (set_viewport32 ctx d l b r t) = clampf (add_half r) (Fin 0) (Fin 1)"
  "ctx_bottom (set_viewport32 ctx d l b r t) = clampf (add_half b) (Fin 0) (Fin 1)"
  "ctx_top (set_viewport32 ctx d l b r t) = clampf (add_half t) (Fin 0) (Fin 1)"
  "ctx_mag (set_viewport32 ctx d l b r t) = powf32 (subf (add_half t) (add_half b)) (- 2)"
  "ctx_global_density (set_viewport32 ctx d l b r t) = d"
  "ctx_tiles (set_viewport32 ctx d l b r t) = ctx_tiles ctx"
  "ctx_density (set_viewport32 ctx d l b r t) = ctx_density ctx"
  "ctx_density_width (set_viewport32 ctx d l b r t) = ctx_density_width ctx"
  "ctx_density_height (set_viewport32 ctx d l b r t) = ctx_density_height ctx"
  "ctx_npoints (set_viewport32 ctx d l b r t) = 0"
  "ctx_points (set_viewport32 ctx d l b r t) = ctx_points ctx"
  by (simp_all add: set_viewport32_def Let_def)

lemma set_viewport32_finite:
  assumes "l \<noteq> NaN" "b \<noteq> NaN" "r \<noteq> NaN" "t \<noteq> NaN"
  shows "viewport_finite (set_viewport32 ctx d l b r t)"
  using assms by (simp add: viewport_finite_def clampf_unit_finite)

lemma sample_density32_static [simp]:
  "sample_density32 (ctx\<lparr>ctx_points := ps\<rparr>) = sample_density32 ctx"
  "sample_density32 (ctx\<lparr>ctx_npoints := n\<rparr>) = sample_density32 ctx"
  "sample_density32 (set_viewport32 ctx d l b r t) = sample_density32 ctx"
  by (simp_all add: sample_density32_def fun_eq_iff Let_def cong: option.case_cong)

lemma root_candidate32_static [simp]:
  "root_candidate32 (append_points ctx ps) = root_candidate32 ctx"
  by (simp add: root_candidate32_def append_points_def fun_eq_iff cong: sum.case_cong if_cong)

lemma store_point32_fits:
  "store_point32 ctx px py r =
     (if fits ctx [\<lparr>vx = sub_half px, vy = sub_half py, rank = r\<rparr>]
      then Inr (append_points ctx [\<lparr>vx = sub_half px, vy = sub_half py, rank = r\<rparr>])
      else Inl BufferOverflow)"
  by (auto simp: store_point32_def fits_def append_points_def upd_conv_take_nth_drop)

lemma root_loop32_step:
  "root_loop32 ctx tile0 factor ntests i =
     (if i < ntests then
        (case root_candidate32 ctx tile0 factor i of
           Inl e \<Rightarrow> Inl e
         | Inr None \<Rightarrow> root_loop32 ctx tile0 factor ntests (i + 1)
         | Inr (Some p) \<Rightarrow>
             if fits ctx [p] then root_loop32 (append_points ctx [p]) tile0 factor ntests (i + 1)
             else Inl BufferOverflow)
      else Inr ctx)"
  by (subst root_loop32.simps)
     (simp add: root_candidate32_def store_point32_fits Let_def split: sum.split)

lemma root_loop32_iff:
  "fits ctx [] \<Longrightarrow>
   root_loop32 ctx tile0 factor ntests i = Inr ctx' \<longleftrightarrow>
     (\<exists>ps. collect (root_candidate32 ctx tile0 factor) ntests i = Inr ps \<and> fits ctx ps \<and>
           ctx' = append_points ctx ps)"
  by (rule loop_collect [where L = "\<lambda>c. root_loop32 c tile0 factor ntests"
        and f = "\<lambda>c. root_candidate32 c tile0 factor"])
     (simp_all add: root_loop32_step [symmetric])

lemma nearest_even_bounds: "\<lfloor>x\<rfloor> \<le> nearest_even x" "nearest_even x \<le> \<lfloor>x\<rfloor> + 1"
  by (simp_all add: nearest_even_def Let_def)

lemma nearest_even_sign: "0 \<le> x \<Longrightarrow> 0 \<le> nearest_even x" "x \<le> 0 \<Longrightarrow> nearest_even x \<le> 0"
proof -
  show "0 \<le> nearest_even x" if "0 \<le> x"
    using that nearest_even_bounds(1) [of x] by (simp add: order_trans [of 0 "\<lfloor>x\<rfloor>"])
  show "nearest_even x \<le> 0" if "x \<le> 0"
  proof (cases "x = 0")
    case True
    then show ?thesis by (simp add: nearest_even_def)
  next
    case False
    then have "x < 0" using that by simp
    then have "\<lfloor>x\<rfloor> < 0" by (simp add: floor_less_iff)
    then have "\<lfloor>x\<rfloor> + 1 \<le> 0" by arith
    then show ?thesis using nearest_even_bounds(2) [of x] by linarith
  qed
qed

lemma round_to_sign:
  "0 \<le> r \<Longrightarrow> round_to p emin r = PInf \<or> (\<exists>v. round_to p emin r = Fin v \<and> 0 \<le> v)"
  "r \<le> 0 \<Longrightarrow> round_to p emin r = NInf \<or> (\<exists>v. round_to p emin r = Fin v \<and> v \<le> 0)"
proof -
  have q: "0 < (2 :: real) powi k" for k by simp
  show "round_to p emin r = PInf \<or> (\<exists>v. round_to p emin r = Fin v \<and> 0 \<le> v)" if "0 \<le> r"
    using that nearest_even_sign(1) [of "r / 2 powi (max \<lfloor>log 2 \<bar>r\<bar>\<rfloor> emin - int p + 1)"]
    by (auto simp: round_to_def Let_def zero_le_divide_iff)
  show "round_to p emin r = NInf \<or> (\<exists>v. round_to p emin r = Fin v \<and> v \<le> 0)" if "r \<le> 0"
    using that nearest_even_sign(2) [of "r / 2 powi (max \<lfloor>log 2 \<bar>r\<bar>\<rfloor> emin - int p + 1)"]
    by (auto simp: round_to_def Let_def divide_le_0_iff mult_le_0_iff)
qed

lemma to_float_sign:
  "fl_le (Fin 0) x \<Longrightarrow> fl_le (Fin 0) (to_float x)"
  "fl_le x (Fin 0) \<Longrightarrow> fl_le (to_float x) (Fin 0)"
proof -
  show "fl_le (Fin 0) (to_float x)" if "fl_le (Fin 0) x"
  proof (cases x)
    case (Fin r)
    then show ?thesis using that round_to_sign(1) [of r 24 "- 126"] by (auto simp: to_float_def)
  qed (use that in \<open>simp_all add: to_float_def\<close>)
  show "fl_le (to_float x) (Fin 0)" if "fl_le x (Fin 0)"
  proof (cases x)
    case (Fin r)
    then show ?thesis using that round_to_sign(2) [of r 24 "- 126"] by (auto simp: to_float_def)
  qed (use that in \<open>simp_all add: to_float_def\<close>)
qed

lemma int_to_float_positive:
  assumes "1 \<le> n" "n \<le> 2147483648"
  shows "\<exists>w. int_to_float n = Fin w \<and> 0 < w"
proof -
  let ?r = "real_of_int n"
  let ?e = "\<lfloor>log 2 ?r\<rfloor>"
  have r: "1 \<le> ?r" "?r \<le> 2 ^ 31" using assms by simp_all
  have e0: "0 \<le> ?e" using r(1) by simp
  have lo: "2 powi ?e \<le> ?r" and hi: "?r < 2 powi (?e + 1)"
    using r(1) floor_log_eq_powr_iff [of ?r 2 ?e] powr_real_of_int' [of 2 ?e] powr_real_of_int' [of 2 "?e + 1"]
    by simp_all
  have "2 powi ?e \<le> (2 :: real) powi 31"
    using lo r(2) by simp
  then have e31: "?e \<le> 31"
    by (rule power_int_le_imp_le_exp [rotated]) simp_all
  let ?q = "(2 :: real) powi (?e - 23)"
  have q: "0 < ?q" by simp
  have "?r / ?q < 2 powi (?e + 1) / ?q"
    using hi q by (simp add: divide_strict_right_mono)
  also have "\<dots> = 2 powi 24"
    by (simp add: power_int_diff [symmetric])
  finally have "\<lfloor>?r / ?q\<rfloor> < 2 ^ 24"
    by (simp add: floor_less_iff)
  then have up: "nearest_even (?r / ?q) \<le> 2 ^ 24"
    using nearest_even_bounds(2) [of "?r / ?q"] by linarith
  have "2 powi ?e / ?q \<le> ?r / ?q"
    using lo q by (simp add: divide_right_mono)
  moreover have "2 powi ?e / ?q = 2 powi 23"
    by (simp add: power_int_diff [symmetric])
  ultimately have "2 ^ 23 \<le> \<lfloor>?r / ?q\<rfloor>"
    by (simp add: le_floor_iff)
  then have dn: "2 ^ 23 \<le> nearest_even (?r / ?q)"
    using nearest_even_bounds(1) [of "?r / ?q"] by linarith
  let ?v = "real_of_int (nearest_even (?r / ?q)) * ?q"
  have pos: "0 < ?v" using dn q by (simp add: zero_less_mult_iff)
  have "?v \<le> 2 ^ 24 * ?q"
    using up q by (simp add: mult_right_mono)
  also have "\<dots> = 2 powi (?e + 1)"
    using power_int_add [of "2 :: real" 24 "?e - 23"] by (simp add: add.commute)
  also have "\<dots> \<le> 2 powi 32"
    using e31 by (intro power_int_increasing) simp_all
  also have "\<dots> < (2 :: real) powi 128"
    by simp
  finally have "\<bar>?v\<bar> < 2 powi 128" using pos by simp
  moreover have "\<bar>?r\<bar> = ?r" using r(1) by simp
  moreover have "- 126 \<le> ?e" using e0 by simp
  ultimately have "round_to 24 (- 126) ?r = Fin ?v"
    using round_to_binade [of ?e ?r "- 126" 24] lo hi by (simp add: Let_def)
  then show ?thesis
    using pos by (simp add: int_to_float_def of_cint_def to_float_def)
qed

lemma nonneg_cases: "fl_le (Fin 0) x \<longleftrightarrow> x = PInf \<or> (\<exists>v. x = Fin v \<and> 0 \<le> v)"
  by (cases x) auto

lemma powf_nonneg: "powf x (- 2) = NaN \<or> fl_le (Fin 0) (powf x (- 2))"
  by (cases x) (auto simp: powf_def)

lemma powf32_nonneg: "powf32 x (- 2) = NaN \<or> fl_le (Fin 0) (powf32 x (- 2))"
  using powf_nonneg [of x] unfolding powf32_def by (auto intro: to_float_sign(1))

lemma tests32_positive:
  assumes nt: "float_to_int (mini32 n x) = Some nt" and k: "0 \<le> k" "k < nt"
  shows "fl_le (Fin 1) x \<and> k + 1 \<le> 2147483647"
proof -
  from nt obtain v where v: "mini32 n x = Fin v" "nt = trunc v" "trunc v \<le> 2147483647"
    by (cases "mini32 n x") (auto simp: float_to_int_def split: if_splits)
  have "1 \<le> trunc v" using k v(2) by simp
  then have "1 \<le> v" by (auto simp: trunc_def split: if_splits)
  then have "fl_le (Fin 1) x"
    using v(1) by (cases x) (auto simp: mini32_def split: if_splits)
  then show ?thesis using k v by simp
qed

lemma bound32_no_nan:
  assumes nt: "float_to_int (mini32 n (mulf mag (Fin a))) = Some nt" and k: "0 \<le> k" "k < nt"
    and m: "mag = NaN \<or> fl_le (Fin 0) mag"
  shows "mulf (int_to_float (k + 1)) (divf (divf (Fin 1) mag) (Fin a)) \<noteq> NaN"
proof -
  from tests32_positive [OF nt k] have x: "fl_le (Fin 1) (mulf mag (Fin a))" and k1: "k + 1 \<le> 2147483647"
    by simp_all
  from int_to_float_positive [of "k + 1"] k(1) k1 obtain w where w: "int_to_float (k + 1) = Fin w" "0 < w"
    by auto
  have "\<not> fl_le (fl_mul mag (Fin a)) (Fin 0)"
  proof
    assume "fl_le (fl_mul mag (Fin a)) (Fin 0)"
    then have "fl_le (mulf mag (Fin a)) (Fin 0)"
      unfolding mulf_def by (rule to_float_sign(2))
    then show False
      using x by (cases "mulf mag (Fin a)") auto
  qed
  moreover have "fl_mul mag (Fin a) \<noteq> NaN"
    using x by (auto simp: mulf_def to_float_def)
  ultimately have pos: "0 < a" "mag = PInf \<or> (\<exists>v. mag = Fin v \<and> 0 < v)"
    using m by (cases mag; auto split: if_splits simp: mult_le_0_iff not_le zero_less_mult_iff)+
  have "fl_le (Fin 0) (fl_div (Fin 1) mag)"
    using pos(2) by auto
  then have "fl_le (Fin 0) (divf (Fin 1) mag)"
    unfolding divf_def by (rule to_float_sign(1))
  then have "fl_le (Fin 0) (fl_div (divf (Fin 1) mag) (Fin a))"
    using pos(1) by (auto simp: nonneg_cases)
  then have "fl_le (Fin 0) (divf (divf (Fin 1) mag) (Fin a))"
    unfolding divf_def [of "divf (Fin 1) mag"] by (rule to_float_sign(1))
  then have "fl_mul (Fin w) (divf (divf (Fin 1) mag) (Fin a)) \<noteq> NaN"
    using w(2) by (auto simp: nonneg_cases)
  then show ?thesis
    by (simp add: mulf_def w(1))
qed

lemma sample_density32_unit:
  assumes "density_in_unit ctx" "sample_density32 ctx px py = Inr d"
  shows "\<exists>s. d = Fin s \<and> s \<le> 1"
proof (cases "ctx_density ctx")
  case None
  then show ?thesis using assms(2) by (auto simp: sample_density32_def)
next
  case (Some density)
  then have "d \<in> set density"
    using assms(2) by (auto simp: sample_density32_def Let_def split: option.splits dest: index_mem)
  then have "case d of Fin s \<Rightarrow> s \<le> 1 | _ \<Rightarrow> False"
    using assms(1) Some by (simp add: density_in_unit_def)
  then show ?thesis by (cases d) simp_all
qed

lemma root_candidate32_amended:
  assumes t0: "index (ctx_tiles ctx) 0 = Inr tile0"
    and nt: "float_to_int (mini32 (tile_npoints tile0)
               (mulf (powf32 (subf (add_half t) (add_half b)) (- 2)) (Fin a))) = Some nt"
    and k: "0 \<le> k" "k < nt"
    and cand: "root_candidate32 (set_viewport32 ctx (Fin a) l b r t) tile0
                 (root_factor32 (set_viewport32 ctx (Fin a) l b r t)) k = Inr rr"
    and u: "density_in_unit ctx" and nn: "tiles_without_nan ctx"
    and v: "l \<noteq> NaN" "b \<noteq> NaN" "r \<noteq> NaN" "t \<noteq> NaN"
  shows "amended_root_point ctx (Fin a) l b r t k = rr"
proof -
  let ?c = "set_viewport32 ctx (Fin a) l b r t"
  let ?mag = "powf32 (subf (add_half t) (add_half b)) (- 2)"
  let ?bound = "mulf (int_to_float (k + 1)) (divf (divf (Fin 1) ?mag) (Fin a))"
  have tile0: "ctx_tiles ctx ! 0 = tile0" "tile0 \<in> set (ctx_tiles ctx)"
    using t0 by (auto simp: index_def split: if_splits)
  from cand obtain p where p: "index (tile_points tile0) k = Inr p"
    by (auto simp: root_candidate32_def split: sum.splits)
  have pn: "vx p \<noteq> NaN" "vy p \<noteq> NaN"
    using nn tile0(2) index_mem [OF p] by (auto simp: tiles_without_nan_def)
  have fin: "viewport_finite ?c"
    using v by (rule set_viewport32_finite)
  have ins: "inside_rect (unit_clamp (add_half l)) (unit_clamp (add_half b)) (unit_clamp (add_half r))
      (unit_clamp (add_half t)) (vx p) (vy p) \<longleftrightarrow> \<not> outside ?c (vx p) (vy p)"
    using within_iff_not_outside [OF fin pn] by (simp add: unit_clamp_clampf)
  have bn: "?bound \<noteq> NaN"
    using nt k powf32_nonneg by (rule bound32_no_nan)
  show ?thesis
  proof (cases "outside ?c (vx p) (vy p)")
    case True
    then show ?thesis
      using cand p ins tile0 by (simp add: root_candidate32_def amended_root_point_def Let_def)
  next
    case False
    then obtain d where d: "sample_density32 ctx (vx p) (vy p) = Inr d"
      using cand p by (auto simp: root_candidate32_def split: sum.splits)
    from sample_density32_unit [OF u d] obtain s where s: "d = Fin s" by blast
    have "fl_le ?bound d \<longleftrightarrow> \<not> fl_lt d ?bound"
      using bn unfolding s by (cases ?bound) auto
    then show ?thesis
      using cand p ins tile0 False d
      by (auto simp: root_candidate32_def amended_root_point_def Let_def sampled_at_least32_def
          root_factor32_def split: if_splits)
  qed
qed

lemma root_pass32_iff:
  "fits ctx [] \<Longrightarrow>
   root_pass32 ctx = Inr ctx' \<longleftrightarrow>
     (\<exists>tile0 nt ps. index (ctx_tiles ctx) 0 = Inr tile0 \<and>
         float_to_int (mini32 (tile_npoints tile0) (mulf (ctx_mag ctx) (ctx_global_density ctx))) = Some nt \<and>
         collect (root_candidate32 ctx tile0 (root_factor32 ctx)) nt 0 = Inr ps \<and> fits ctx ps \<and>
         ctx' = append_points ctx ps)"
  by (auto simp: root_pass32_def root_loop32_iff split: sum.split option.split)

text \<open>
  C1, amended. The first part of \<^verbatim>\<open>par_bluenoise_generate\<close>, in single precision: when it
  returns, the magnification is the power \<open>-2\<close> of the height of the viewport moved by one
  half and not yet clamped, the four bounds are clamped to the unit interval, and the
  points written are those of \<open>amended_root_pass\<close>, in its order: the points \<open>i\<close> below the
  count of tests, a whole number, that lie within the clamped viewport with a sampled
  density of at least \<open>(i + 1) * factor\<close>, each with the rank \<open>i * factor\<close>. The density is
  a number, the values of the density field are numbers of at most 1, and no coordinate
  of the tile set and no bound of the viewport is a NaN.
\<close>

theorem root_pass_as_amended:
  assumes run: "root_pass32 (set_viewport32 ctx (Fin density) vleft vbottom vright vtop) = Inr ctx'"
    and u: "density_in_unit ctx" and nn: "tiles_without_nan ctx"
    and v: "vleft \<noteq> NaN" "vbottom \<noteq> NaN" "vright \<noteq> NaN" "vtop \<noteq> NaN"
  shows "ctx_mag ctx' = powf32 (subf (add_half vtop) (add_half vbottom)) (- 2) \<and>
         ctx_left ctx' = unit_clamp (add_half vleft) \<and>
         ctx_bottom ctx' = unit_clamp (add_half vbottom) \<and>
         ctx_right ctx' = unit_clamp (add_half vright) \<and>
         ctx_top ctx' = unit_clamp (add_half vtop) \<and>
         generated ctx' = amended_root_pass ctx (Fin density) vleft vbottom vright vtop"
proof -
  let ?c = "set_viewport32 ctx (Fin density) vleft vbottom vright vtop"
  let ?G = "amended_root_point ctx (Fin density) vleft vbottom vright vtop"
  have f0: "fits ?c []" by (simp add: fits_def)
  from run obtain tile0 nt ps where t0: "index (ctx_tiles ctx) 0 = Inr tile0"
    and nt: "float_to_int (mini32 (tile_npoints tile0)
               (mulf (powf32 (subf (add_half vtop) (add_half vbottom)) (- 2)) (Fin density))) = Some nt"
    and c: "collect (root_candidate32 ?c tile0 (root_factor32 ?c)) nt 0 = Inr ps"
    and fit: "fits ?c ps" and ctx': "ctx' = append_points ?c ps"
    unfolding root_pass32_iff [OF f0] by auto
  let ?F = "\<lambda>k. case root_candidate32 ?c tile0 (root_factor32 ?c) k of Inl e \<Rightarrow> None | Inr r \<Rightarrow> r"
  have tile0: "ctx_tiles ctx ! 0 = tile0"
    using t0 by (auto simp: index_def split: if_splits)
  from collect_map_filter [OF c] have ps: "ps = List.map_filter ?F [0..nt - 1]"
    and all: "\<And>k. 0 \<le> k \<Longrightarrow> k < nt \<Longrightarrow> \<exists>rr. root_candidate32 ?c tile0 (root_factor32 ?c) k = Inr rr"
    by blast+
  have agree: "?F k = ?G k" if "k \<in> set [0..nt - 1]" for k
  proof -
    from that have k: "0 \<le> k" "k < nt" by simp_all
    from all [OF k] obtain rr where rr: "root_candidate32 ?c tile0 (root_factor32 ?c) k = Inr rr" by blast
    from root_candidate32_amended [OF t0 nt k rr u nn v] rr show ?thesis by simp
  qed
  have "ps = List.map_filter ?G [0..nt - 1]"
    unfolding ps using agree by (intro map_filter_cong) simp
  moreover have "generated (append_points ?c ps) = ps"
    using fit by (simp add: generated_append_points) (simp add: generated_def)
  ultimately have "generated ctx' = amended_root_pass ctx (Fin density) vleft vbottom vright vtop"
    using nt tile0 unfolding ctx' by (simp add: amended_root_pass_def Let_def)
  then show ?thesis
    unfolding ctx' by (simp add: unit_clamp_clampf append_points_def)
qed

lemma to_float_thirds:
  "to_float (Fin 3) = Fin 3"
  "to_float (Fin (1 / 3)) = Fin (11184811 / 33554432)"
  "to_float (Fin (11184811 / 33554432)) = Fin (11184811 / 33554432)"
  using round_to_binade [of 1 3 "- 126" 24] round_to_binade [of "- 2" "1 / 3" "- 126" 24]
    round_to_binade [of "- 2" "11184811 / 33554432" "- 126" 24]
  by (simp_all add: to_float_def nearest_even_def Let_def)

lemma quad_thirds_view:
  "set_viewport32 quad_ctx (Fin 3) (Fin (- 1 / 2)) (Fin (- 1 / 2)) (Fin (1 / 2)) (Fin (1 / 2)) =
     quad_ctx\<lparr>ctx_global_density := Fin 3, ctx_left := Fin 0, ctx_bottom := Fin 0,
       ctx_right := Fin 1, ctx_top := Fin 1, ctx_mag := Fin 1\<rparr>"
  by (simp add: set_viewport32_def Let_def add_half_def subf_def powf32_def powf_def fl_sub_def
      to_double_values to_float_values clampf_def fl_gt_def quad_ctx_def)

lemma quad_thirds_run:
  "root_pass32 (set_viewport32 quad_ctx (Fin 3) (Fin (- 1 / 2)) (Fin (- 1 / 2)) (Fin (1 / 2)) (Fin (1 / 2))) =
     Inr (quad_ctx\<lparr>ctx_points := \<lparr>vx = Fin 0, vy = Fin 0, rank = Fin 0\<rparr> # tl (ctx_points quad_ctx),
            ctx_global_density := Fin 3, ctx_left := Fin 0, ctx_bottom := Fin 0,
            ctx_right := Fin 1, ctx_top := Fin 1, ctx_npoints := 1, ctx_mag := Fin 1\<rparr>)"
  unfolding quad_thirds_view
  by (simp add: root_pass32_def root_factor32_def index_def quad_ctx_def quad_tile_def origin3_def
      mini32_def mulf_def divf_def int_to_float_def of_cint_def to_float_values to_float_thirds
      float_to_int_def trunc_def root_loop32.simps outside_def fl_gt_def sample_density32_def
      store_point32_def sub_half_def fl_sub_def to_double_values Let_def)

lemma quad_thirds_amended:
  "amended_root_pass quad_ctx (Fin 3) (Fin (- 1 / 2)) (Fin (- 1 / 2)) (Fin (1 / 2)) (Fin (1 / 2)) =
     [\<lparr>vx = Fin 0, vy = Fin 0, rank = Fin 0\<rparr>]"
  by (simp add: amended_root_pass_def amended_root_point_def Let_def add_half_def subf_def powf32_def
      powf_def fl_sub_def to_double_values to_float_values to_float_thirds mini32_def mulf_def divf_def
      int_to_float_def of_cint_def float_to_int_def trunc_def quad_ctx_def quad_tile_def index_def
      List.map_filter_simps upto.simps unit_clamp_def inside_rect_def sampled_at_least32_def
      sample_density32_def sub_half_def)

theorem root_pass_as_amended_witness:
  "map_sum id generated
     (root_pass32 (set_viewport32 quad_ctx (Fin 3) (Fin (- 1 / 2)) (Fin (- 1 / 2)) (Fin (1 / 2)) (Fin (1 / 2)))) =
     Inr [\<lparr>vx = Fin 0, vy = Fin 0, rank = Fin 0\<rparr>] \<and>
   density_in_unit quad_ctx \<and> tiles_without_nan quad_ctx \<and>
   amended_root_pass quad_ctx (Fin 3) (Fin (- 1 / 2)) (Fin (- 1 / 2)) (Fin (1 / 2)) (Fin (1 / 2)) =
     [\<lparr>vx = Fin 0, vy = Fin 0, rank = Fin 0\<rparr>] \<and>
   powf32 (subf (add_half (Fin (1 / 2))) (add_half (Fin (- 1 / 2)))) (- 2) = Fin 1 \<and>
   unit_clamp (add_half (Fin (- 1 / 2))) = Fin 0 \<and> unit_clamp (add_half (Fin (1 / 2))) = Fin 1"
proof -
  have u: "density_in_unit quad_ctx"
    by (simp add: density_in_unit_def quad_ctx_def)
  have g: "map_sum id generated
     (root_pass32 (set_viewport32 quad_ctx (Fin 3) (Fin (- 1 / 2)) (Fin (- 1 / 2)) (Fin (1 / 2)) (Fin (1 / 2)))) =
     Inr [\<lparr>vx = Fin 0, vy = Fin 0, rank = Fin 0\<rparr>]"
    unfolding quad_thirds_run by (simp add: generated_def)
  have m: "powf32 (subf (add_half (Fin (1 / 2))) (add_half (Fin (- 1 / 2)))) (- 2) = Fin 1"
    "unit_clamp (add_half (Fin (- 1 / 2))) = Fin 0" "unit_clamp (add_half (Fin (1 / 2))) = Fin 1"
    by (simp_all add: add_half_def subf_def powf32_def powf_def fl_sub_def to_double_values
        to_float_values unit_clamp_def)
  show ?thesis
    using root_pass_as_amended [OF quad_thirds_run u quad_without_nan(1)] g u quad_without_nan(1)
      quad_thirds_amended m
    by simp
qed

subsection \<open>The visit of a node\<close>


















subsection \<open>More density, no fewer points\<close>

lemma scaled_ok: "magnification_ok m \<Longrightarrow> 0 < e \<Longrightarrow> magnification_ok (fl_div m (Fin e))"
  by (auto simp: magnification_ok_def)

lemma scaled_mono:
  assumes "magnification_ok c" "fl_le d1 d2" "fl_mul c d1 \<noteq> NaN" "fl_mul c d2 \<noteq> NaN"
  shows "fl_le (fl_mul c d1) (fl_mul c d2)"
  using assms unfolding magnification_ok_def
  by (cases d1; cases d2) (auto split: if_splits simp: mult_left_mono)

lemma fl_sub_mono: "fl_le x y \<Longrightarrow> fl_le (fl_sub x (Fin z)) (fl_sub y (Fin z))"
  by (cases x; cases y) (auto simp: fl_sub_def)

lemma fl_sub_nan [simp]: "fl_sub x (Fin z) = NaN \<longleftrightarrow> x = NaN"
  by (cases x) (auto simp: fl_sub_def)

lemma trunc_mono: "x \<le> y \<Longrightarrow> trunc x \<le> trunc y"
proof -
  assume xy: "x \<le> y"
  consider "0 \<le> x" | "x < 0" "0 \<le> y" | "y < 0" by linarith
  then show ?thesis
  proof cases
    case 1
    then show ?thesis using xy by (simp add: trunc_def floor_mono)
  next
    case 2
    then have "\<lceil>x\<rceil> \<le> 0" "0 \<le> \<lfloor>y\<rfloor>" by (simp_all add: ceiling_le_zero)
    then have "\<lceil>x\<rceil> \<le> \<lfloor>y\<rfloor>" by (rule order_trans)
    moreover have "trunc x = \<lceil>x\<rceil>" "trunc y = \<lfloor>y\<rfloor>" using 2 by (simp_all add: trunc_def)
    ultimately show ?thesis by (simp only:)
  next
    case 3
    then show ?thesis using xy by (simp add: trunc_def ceiling_mono)
  qed
qed

lemma ntests_mono:
  assumes "float_to_int (mini n x1) = Some t1" "float_to_int (mini n x2) = Some t2" "fl_le x1 x2"
  shows "t1 \<le> t2"
proof -
  from assms(1) obtain v1 where v1: "mini n x1 = Fin v1" "t1 = trunc v1"
    by (cases "mini n x1") (auto simp: float_to_int_def split: if_splits)
  from assms(2) obtain v2 where v2: "mini n x2 = Fin v2" "t2 = trunc v2"
    by (cases "mini n x2") (auto simp: float_to_int_def split: if_splits)
  have "v1 \<le> v2"
    using v1(1) v2(1) assms(3) by (cases x1; cases x2) (auto simp: mini_def of_cint_def split: if_splits)
  then show ?thesis
    using v1 v2 by (simp add: trunc_mono)
qed

lemma descend_mono:
  assumes "\<not> fl_le x1 (Fin c)" "fl_le x1 x2"
  shows "\<not> fl_le x2 (Fin c)"
  using assms by (cases x1; cases x2) auto

lemma acceptance_mono:
  assumes m: "magnification_ok mag" and e: "0 < e" and d: "fl_le d1 d2"
    and t: "fl_le (Fin 1) (fl_mul (fl_div mag (Fin e)) d1)" and j: "0 \<le> j"
    and a: "\<not> fl_lt s (fl_mul (Fin j) (fl_div (fl_mul (fl_div (Fin 1) mag) (Fin e)) d1))"
  shows "\<not> fl_lt s (fl_mul (Fin j) (fl_div (fl_mul (fl_div (Fin 1) mag) (Fin e)) d2))"
proof -
  let ?F1 = "fl_div (fl_mul (fl_div (Fin 1) mag) (Fin e)) d1"
  let ?F2 = "fl_div (fl_mul (fl_div (Fin 1) mag) (Fin e)) d2"
  have "\<exists>f1 f2. ?F1 = Fin f1 \<and> ?F2 = Fin f2 \<and> 0 \<le> f2 \<and> f2 \<le> f1"
  proof (cases "mag = PInf")
    case True
    then show ?thesis
      using e d t by (cases d1; cases d2) (auto split: if_splits)
  next
    case False
    then obtain a where a: "mag = Fin a" "0 \<le> a"
      using m by (auto simp: magnification_ok_def)
    show ?thesis
    proof (cases d1)
      case (Fin b1)
      then have "1 \<le> a / e * b1"
        using t a e by simp
      then have "0 < a / e * b1" by simp
      then have "0 < a * b1"
        using e by (simp add: zero_less_mult_iff zero_less_divide_iff)
      then have pos: "0 < a" "0 < b1"
        using a(2) by (auto simp: zero_less_mult_iff)
      show ?thesis
      proof (cases d2)
        case (Fin b2)
        then have "b1 \<le> b2" using d \<open>d1 = Fin b1\<close> by simp
        then have "1 / a * e / b2 \<le> 1 / a * e / b1"
          using pos e by (intro divide_left_mono) (auto intro: mult_pos_pos)
        moreover have "0 \<le> 1 / a * e / b2"
          using pos e \<open>b1 \<le> b2\<close> by simp
        ultimately show ?thesis
          using a pos e Fin \<open>d1 = Fin b1\<close> \<open>b1 \<le> b2\<close> by auto
      qed (use a pos e d \<open>d1 = Fin b1\<close> in auto)
    qed (use a e d t in \<open>cases d2; auto split: if_splits\<close>)+
  qed
  then obtain f1 f2 where f: "?F1 = Fin f1" "?F2 = Fin f2" "0 \<le> f2" "f2 \<le> f1" by blast
  have "j * f2 \<le> j * f1" using j f(4) by (rule mult_left_mono [rotated])
  then show ?thesis
    using a unfolding f by (cases s) auto
qed

lemma collect_length_mono:
  assumes "collect f n i = Inr ps" "collect g m i = Inr qs" "n \<le> m"
    "\<And>k p. i \<le> k \<Longrightarrow> k < n \<Longrightarrow> f k = Inr (Some p) \<Longrightarrow> \<exists>q. g k = Inr (Some q)"
  shows "length ps \<le> length qs"
  using assms
proof (induction "nat (n - i)" arbitrary: i ps qs)
  case 0
  then show ?case by (subst (asm) collect.simps) simp
next
  case (Suc j)
  then have lt: "i < n" "i < m" and j: "j = nat (n - (i + 1))" by simp_all
  from Suc.prems(1) lt obtain r rest where r: "f i = Inr r" "collect f n (i + 1) = Inr rest"
    "ps = (case r of None \<Rightarrow> rest | Some q \<Rightarrow> q # rest)"
    by (subst (asm) collect.simps) (auto split: sum.splits)
  from Suc.prems(2) lt obtain r' rest' where r': "g i = Inr r'" "collect g m (i + 1) = Inr rest'"
    "qs = (case r' of None \<Rightarrow> rest' | Some q \<Rightarrow> q # rest')"
    by (subst (asm) collect.simps) (auto split: sum.splits)
  have "length rest \<le> length rest'"
    using Suc.hyps(1) [OF j r(2) r'(2) Suc.prems(3)] Suc.prems(4) by simp
  moreover have "r' \<noteq> None" if "r \<noteq> None"
    using Suc.prems(4) [of i] that r(1) r'(1) lt by auto
  ultimately show ?case
    unfolding r(3) r'(3) by (auto split: option.splits)
qed

lemma static_density [simp]:
  "outside (ctx\<lparr>ctx_global_density := d\<rparr>) = outside ctx"
  "sample_density (ctx\<lparr>ctx_global_density := d\<rparr>) = sample_density ctx"
  "tile_size (ctx\<lparr>ctx_global_density := d\<rparr>) = tile_size ctx"
  "tile_depth (ctx\<lparr>ctx_global_density := d\<rparr>) = tile_depth ctx"
  "tile_scale (ctx\<lparr>ctx_global_density := d\<rparr>) = tile_scale ctx"
  "misses_viewport (ctx\<lparr>ctx_global_density := d\<rparr>) = misses_viewport ctx"
  "spawn_children (ctx\<lparr>ctx_global_density := d\<rparr>) = spawn_children ctx"
  "node_ok (ctx\<lparr>ctx_global_density := d\<rparr>) = node_ok ctx"
  by (simp_all add: outside_def sample_density_def tile_size_def tile_depth_def
      tile_scale_def misses_viewport_def spawn_children_def node_ok_def
      fun_eq_iff Let_def cong: option.case_cong)

lemma tests_threshold:
  assumes "float_to_int (mini n (fl_sub y (Fin m))) = Some t" "1 \<le> t" "0 \<le> m"
  shows "fl_le (Fin 1) y"
proof -
  from assms(1) obtain v where v: "mini n (fl_sub y (Fin m)) = Fin v" "t = trunc v"
    by (cases "mini n (fl_sub y (Fin m))") (auto simp: float_to_int_def split: if_splits)
  have "1 \<le> v"
    using assms(2) v(2) by (auto simp: trunc_def split: if_splits)
  then show ?thesis
    using v(1) assms(3) by (cases y) (auto simp: mini_def of_cint_def fl_sub_def split: if_splits)
qed

lemma tests_no_nan:
  "float_to_int (mini n x) = Some t \<Longrightarrow> x \<noteq> NaN"
  by (cases x) (auto simp: float_to_int_def mini_def of_cint_def)

lemma fl_mul_one [simp]: "fl_mul x (Fin 1) = x" "fl_div x (Fin 1) = x"
  by (cases x; simp)+

lemma fl_sub_zero [simp]: "fl_sub x (Fin 0) = x"
  by (cases x) (simp_all add: fl_sub_def)

lemma tile_depth_pos:
  "node_ok ctx node \<Longrightarrow> \<exists>e. tile_depth ctx (node_level node) = Fin e \<and> 0 < e"
  using powf_pos [of "2 * node_level node" "ctx_nsubtiles ctx"]
  by (auto simp: node_ok_def tile_depth_def)

lemma threshold_mono:
  assumes m: "magnification_ok (ctx_mag c1)" and ok: "node_ok c1 node"
    and d: "fl_le (ctx_global_density c1) d2"
    and x1: "tile_threshold c1 tile (node_level node) \<noteq> NaN"
    and x2: "tile_threshold (c1\<lparr>ctx_global_density := d2\<rparr>) tile (node_level node) \<noteq> NaN"
  shows "fl_le (tile_threshold c1 tile (node_level node))
           (tile_threshold (c1\<lparr>ctx_global_density := d2\<rparr>) tile (node_level node))"
proof -
  from tile_depth_pos [OF ok] obtain e where e: "tile_depth c1 (node_level node) = Fin e" "0 < e"
    by blast
  have c: "magnification_ok (fl_div (ctx_mag c1) (Fin e))"
    using m e(2) by (rule scaled_ok)
  show ?thesis
    using x1 x2 scaled_mono [OF c d]
    by (simp add: tile_threshold_def e of_cint_def fl_sub_mono)
qed

lemma tile_emits_mono:
  assumes m: "magnification_ok (ctx_mag c1)" and ok: "node_ok c1 node"
    and d: "fl_le (ctx_global_density c1) d2" and np: "0 \<le> tile_npoints tile"
    and r1: "tile_emits c1 node tile = Inr ps"
    and r2: "tile_emits (c1\<lparr>ctx_global_density := d2\<rparr>) node tile = Inr qs"
  shows "length ps \<le> length qs"
proof -
  let ?c2 = "c1\<lparr>ctx_global_density := d2\<rparr>"
  let ?l = "node_level node"
  from tile_depth_pos [OF ok] obtain e where e: "tile_depth c1 ?l = Fin e" "0 < e"
    by blast
  from r1 obtain t1 where t1: "float_to_int (mini (tile_nsubpts tile) (tile_threshold c1 tile ?l)) = Some t1"
    "collect (tile_candidate c1 tile (node_x node) (node_y node) ?l (tile_size c1 ?l) (tile_factor c1 ?l)) t1 0 = Inr ps"
    by (auto simp: tile_emits_def Let_def split: option.splits)
  from r2 obtain t2 where t2: "float_to_int (mini (tile_nsubpts tile) (tile_threshold ?c2 tile ?l)) = Some t2"
    "collect (tile_candidate ?c2 tile (node_x node) (node_y node) ?l (tile_size c1 ?l) (tile_factor ?c2 ?l)) t2 0 = Inr qs"
    by (auto simp: tile_emits_def Let_def split: option.splits)
  have le: "fl_le (tile_threshold c1 tile ?l) (tile_threshold ?c2 tile ?l)"
    using m ok d tests_no_nan [OF t1(1)] tests_no_nan [OF t2(1)] by (rule threshold_mono)
  have tt: "t1 \<le> t2"
    using t1(1) t2(1) le by (rule ntests_mono)
  have acc: "\<exists>q. tile_candidate ?c2 tile (node_x node) (node_y node) ?l (tile_size c1 ?l) (tile_factor ?c2 ?l) k = Inr (Some q)"
    if k: "0 \<le> k" "k < t1"
      and p: "tile_candidate c1 tile (node_x node) (node_y node) ?l (tile_size c1 ?l) (tile_factor c1 ?l) k = Inr (Some p)"
    for k p
  proof -
    have "1 \<le> t1" using k by simp
    with t1(1) have one: "fl_le (Fin 1) (fl_mul (fl_div (ctx_mag c1) (Fin e)) (ctx_global_density c1))"
      using np by (intro tests_threshold [where m = "of_int (tile_npoints tile)"])
        (simp_all add: tile_threshold_def e of_cint_def)
    have j: "0 \<le> real_of_int (k + tile_npoints tile)" using k np by simp
    note am = acceptance_mono [OF m e(2) d one j]
    show ?thesis
      using p am
      by (auto simp: tile_candidate_def Let_def tile_factor_def e of_cint_def split: sum.splits if_splits)
  qed
  show ?thesis
    using t1(2) t2(2) tt acc by (rule collect_length_mono)
qed

lemma root_emits_mono:
  assumes m: "magnification_ok (ctx_mag c1)"
    and d: "fl_le (ctx_global_density c1) d2"
    and r1: "root_emits c1 = Inr ps"
    and r2: "root_emits (c1\<lparr>ctx_global_density := d2\<rparr>) = Inr qs"
  shows "length ps \<le> length qs"
proof -
  let ?c2 = "c1\<lparr>ctx_global_density := d2\<rparr>"
  from r1 obtain tile0 t1 where t1: "index (ctx_tiles c1) 0 = Inr tile0"
    "float_to_int (mini (tile_npoints tile0) (fl_mul (ctx_mag c1) (ctx_global_density c1))) = Some t1"
    "collect (root_candidate c1 tile0 (root_factor c1)) t1 0 = Inr ps"
    by (auto simp: root_emits_def split: sum.splits option.splits)
  from r2 t1(1) obtain t2 where t2:
    "float_to_int (mini (tile_npoints tile0) (fl_mul (ctx_mag c1) d2)) = Some t2"
    "collect (root_candidate ?c2 tile0 (root_factor ?c2)) t2 0 = Inr qs"
    by (auto simp: root_emits_def split: sum.splits option.splits)
  have le: "fl_le (fl_mul (ctx_mag c1) (ctx_global_density c1)) (fl_mul (ctx_mag c1) d2)"
    using m d tests_no_nan [OF t1(2)] tests_no_nan [OF t2(1)] by (rule scaled_mono)
  have tt: "t1 \<le> t2"
    using t1(2) t2(1) le by (rule ntests_mono)
  have acc: "\<exists>q. root_candidate ?c2 tile0 (root_factor ?c2) k = Inr (Some q)"
    if k: "0 \<le> k" "k < t1" and p: "root_candidate c1 tile0 (root_factor c1) k = Inr (Some p)"
    for k p
  proof -
    have "1 \<le> t1" using k by simp
    with t1(2) have one: "fl_le (Fin 1) (fl_mul (fl_div (ctx_mag c1) (Fin 1)) (ctx_global_density c1))"
      by (intro tests_threshold [where m = 0]) simp_all
    have j: "0 \<le> real_of_int (k + 1)" using k by simp
    note am = acceptance_mono [OF m zero_less_one d one j]
    show ?thesis
      using p am
      by (auto simp: root_candidate_def root_factor_def of_cint_def split: sum.splits if_splits)
  qed
  show ?thesis
    using t1(3) t2(2) tt acc by (rule collect_length_mono)
qed

lemma node_emits_mono:
  "node_emits f1 c1 node = Inr ps \<Longrightarrow> node_emits f2 (c1\<lparr>ctx_global_density := d2\<rparr>) node = Inr qs \<Longrightarrow>
   node_ok c1 node \<Longrightarrow> magnification_ok (ctx_mag c1) \<Longrightarrow> fl_le (ctx_global_density c1) d2 \<Longrightarrow>
   \<forall>t \<in> set (ctx_tiles c1). 0 \<le> tile_npoints t \<Longrightarrow> length ps \<le> length qs"
  "children_emits f1 c1 nodes = Inr ps \<Longrightarrow> children_emits f2 (c1\<lparr>ctx_global_density := d2\<rparr>) nodes = Inr qs \<Longrightarrow>
   \<forall>c \<in> set nodes. node_ok c1 c \<Longrightarrow> magnification_ok (ctx_mag c1) \<Longrightarrow> fl_le (ctx_global_density c1) d2 \<Longrightarrow>
   \<forall>t \<in> set (ctx_tiles c1). 0 \<le> tile_npoints t \<Longrightarrow> length ps \<le> length qs"
proof (induction f1 c1 node and f1 c1 nodes arbitrary: ps qs f2 and ps qs f2
    rule: node_emits_children_emits.induct)
  case (1 ctx node)
  then show ?case by simp
next
  case (2 fuel ctx node)
  let ?c2 = "ctx\<lparr>ctx_global_density := d2\<rparr>"
  from "2.prems"(2) obtain g2 where f2: "f2 = Suc g2"
    by (cases f2) simp_all
  show ?case
  proof (cases "misses_viewport ctx node")
    case True
    then show ?thesis using "2.prems"(1) by simp
  next
    case miss: False
    then obtain tile ps1 where tile: "index (ctx_tiles ctx) (node_tile node) = Inr tile"
      and ps1: "tile_emits ctx node tile = Inr ps1"
      using "2.prems"(1) by (auto split: sum.splits)
    from miss tile obtain qs1 where qs1: "tile_emits ?c2 node tile = Inr qs1"
      using "2.prems"(2) unfolding f2 by (auto split: sum.splits)
    have np: "0 \<le> tile_npoints tile"
      using index_mem [OF tile] "2.prems"(6) by blast
    have here: "length ps1 \<le> length qs1"
      using "2.prems"(4,3,5) np ps1 qs1 by (rule tile_emits_mono)
    have x1: "tile_threshold ctx tile (node_level node) \<noteq> NaN"
      using ps1 by (auto simp: tile_emits_def Let_def split: option.splits dest: tests_no_nan)
    have x2: "tile_threshold ?c2 tile (node_level node) \<noteq> NaN"
      using qs1 by (auto simp: tile_emits_def Let_def split: option.splits dest: tests_no_nan)
    note le = threshold_mono [OF "2.prems"(4,3,5) x1 x2]
    show ?thesis
    proof (cases "fl_le (tile_threshold ctx tile (node_level node)) (of_cint (tile_nsubpts tile))")
      case True
      then have "ps = ps1"
        using miss tile ps1 "2.prems"(1) by simp
      moreover have "length qs1 \<le> length qs"
        using miss tile qs1 "2.prems"(2) unfolding f2 by (auto split: sum.splits if_splits)
      ultimately show ?thesis using here by simp
    next
      case deeper: False
      then obtain children ps2 where ch: "spawn_children ctx node tile = Inr children"
        and ps2: "children_emits fuel ctx children = Inr ps2" and ps: "ps = ps1 @ ps2"
        using miss tile ps1 "2.prems"(1) by (auto split: sum.splits)
      have "\<not> fl_le (tile_threshold ?c2 tile (node_level node)) (of_cint (tile_nsubpts tile))"
        using deeper le unfolding of_cint_def by (rule descend_mono)
      then obtain qs2 where qs2: "children_emits g2 ?c2 children = Inr qs2" and qs: "qs = qs1 @ qs2"
        using miss tile qs1 ch "2.prems"(2) unfolding f2 by (auto split: sum.splits)
      have ok: "\<forall>c \<in> set children. node_ok ctx c"
        using spawn_children_ok [OF ch "2.prems"(3)] by blast
      note IH = "2.IH" [OF miss tile ps1 deeper ch ps2 qs2 ok "2.prems"(4,5,6)]
      show ?thesis
        using here IH ps qs by simp
    qed
  qed
next
  case (3 fuel ctx)
  then show ?case by simp
next
  case (4 fuel ctx node rest)
  let ?c2 = "ctx\<lparr>ctx_global_density := d2\<rparr>"
  from "4.prems"(1) obtain ps1 ps2 where ps1: "node_emits fuel ctx node = Inr ps1"
    and ps2: "children_emits fuel ctx rest = Inr ps2" and ps: "ps = ps1 @ ps2"
    by (auto split: sum.splits)
  from "4.prems"(2) obtain qs1 qs2 where qs1: "node_emits f2 ?c2 node = Inr qs1"
    and qs2: "children_emits f2 ?c2 rest = Inr qs2" and qs: "qs = qs1 @ qs2"
    by (auto split: sum.splits)
  have "length ps1 \<le> length qs1"
    using "4.IH"(1) [OF ps1 qs1 _ "4.prems"(4,5,6)] "4.prems"(3) by simp
  moreover have "length ps2 \<le> length qs2"
    using "4.IH"(2) [OF ps1 ps2 qs2 _ "4.prems"(4,5,6)] "4.prems"(3) by simp
  ultimately show ?case
    using ps qs by simp
qed

lemma set_viewport_density:
  "set_viewport ctx d2 l b r t = (set_viewport ctx d1 l b r t)\<lparr>ctx_global_density := d2\<rparr>"
  by (simp add: set_viewport_def Let_def)

lemma magnification_cases:
  "powf x (- 2) = NaN \<or> magnification_ok (powf x (- 2))"
  by (cases x) (auto simp: powf_def magnification_ok_def)

lemma root_emits_magnification:
  assumes "root_emits ctx = Inr ps"
  shows "ctx_mag ctx \<noteq> NaN"
proof -
  from assms obtain n t where "float_to_int (mini n (fl_mul (ctx_mag ctx) (ctx_global_density ctx))) = Some t"
    by (auto simp: root_emits_def split: sum.splits option.splits)
  from tests_no_nan [OF this] show ?thesis
    by auto
qed

lemma quad_half_run:
  "par_bluenoise_generate 2 quad_ctx (Fin 4) (Fin (- 1 / 2)) (Fin (- 1 / 2)) (Fin (1 / 2)) (Fin (1 / 2)) =
     Inr (quad_ctx\<lparr>ctx_points :=
              [\<lparr>vx = Fin 0, vy = Fin 0, rank = Fin 0\<rparr>,
               \<lparr>vx = Fin (- (1 / 4)), vy = Fin (- (1 / 4)), rank = Fin 1\<rparr>,
               \<lparr>vx = Fin (1 / 4), vy = Fin (1 / 4), rank = Fin (5 / 4)\<rparr>,
               origin3, origin3, origin3, origin3, origin3],
            ctx_global_density := Fin 4, ctx_left := Fin 0, ctx_bottom := Fin 0, ctx_right := Fin 1,
            ctx_top := Fin 1, ctx_npoints := 3, ctx_mag := Fin 1\<rparr>)"
  by (simp add: sampler_defs quad_defs root_loop.simps tile_loop.simps children_rows.simps
      children_row.simps numeral_2_eq_2)

lemma quad_counts: "counts_not_negative quad_ctx"
  by (simp add: counts_not_negative_def quad_defs)

text \<open>
  C5. For a fixed context and a fixed viewport, \<^verbatim>\<open>generate\<close> at the density \<open>d2\<close> returns at
  least as many points as at a density \<open>d1 \<le> d2\<close>, when both calls return and no tile of the
  set has a negative count of points. The two calls may need different depths of recursion.
\<close>

theorem generate_monotone_in_density:
  assumes r1: "par_bluenoise_generate f1 ctx d1 l b r t = Inr c1"
    and r2: "par_bluenoise_generate f2 ctx d2 l b r t = Inr c2"
    and d: "fl_le d1 d2"
    and np: "counts_not_negative ctx"
  shows "ctx_npoints c1 \<le> ctx_npoints c2"
proof -
  let ?v1 = "set_viewport ctx d1 l b r t"
  let ?v2 = "?v1\<lparr>ctx_global_density := d2\<rparr>"
  from generated_generate [OF r1] obtain ps1 ps2 where 1: "root_emits ?v1 = Inr ps1"
    "node_emits f1 ?v1 root_node = Inr ps2" "c1 = append_points ?v1 (ps1 @ ps2)"
    by blast
  from generated_generate [OF r2] obtain qs1 qs2 where 2: "root_emits ?v2 = Inr qs1"
    "node_emits f2 ?v2 root_node = Inr qs2" "c2 = append_points (set_viewport ctx d2 l b r t) (qs1 @ qs2)"
    unfolding set_viewport_density [of ctx d2 l b r t d1] by blast
  have m: "magnification_ok (ctx_mag ?v1)"
    using root_emits_magnification [OF 1(1)]
      magnification_cases [of "fl_sub (fl_add t (Fin (1 / 2))) (fl_add b (Fin (1 / 2)))"] by simp
  have d': "fl_le (ctx_global_density ?v1) d2" using d by simp
  have np': "\<forall>tile \<in> set (ctx_tiles ?v1). 0 \<le> tile_npoints tile" using np by (simp add: counts_not_negative_def)
  have "length ps1 \<le> length qs1"
    using m d' 1(1) 2(1) by (rule root_emits_mono)
  moreover have "length ps2 \<le> length qs2"
    using 1(2) 2(2) root_node_ok m d' np' by (rule node_emits_mono(1))
  ultimately show ?thesis
    unfolding 1(3) 2(3) by (simp add: append_points_def)
qed

theorem generate_monotone_in_density_witness:
  "map_sum id ctx_npoints
     (par_bluenoise_generate 2 quad_ctx (Fin 4) (Fin (- 1 / 2)) (Fin (- 1 / 2)) (Fin (1 / 2)) (Fin (1 / 2))) = Inr 3 \<and>
   map_sum id ctx_npoints
     (par_bluenoise_generate 2 quad_ctx (Fin 8) (Fin (- 1 / 2)) (Fin (- 1 / 2)) (Fin (1 / 2)) (Fin (1 / 2))) = Inr 7 \<and>
   fl_le (Fin 4) (Fin 8) \<and> counts_not_negative quad_ctx \<and> (3 :: nat) \<le> 7"
proof -
  have d: "fl_le (Fin 4) (Fin 8)" by simp
  show ?thesis
    using generate_monotone_in_density [OF quad_half_run quad_run d quad_counts] quad_half_run quad_run
      quad_counts
    by simp
qed

subsection \<open>A viewport without height on the second scene\<close>

lemma children_emits_all:
  "children_emits fuel ctx nodes = Inr ps \<Longrightarrow> c \<in> set nodes \<Longrightarrow> \<exists>qs. node_emits fuel ctx c = Inr qs"
  by (induction nodes arbitrary: ps) (auto split: sum.splits)

lemma quad_flat_fields:
  "ctx_mag quad_flat = PInf" "ctx_global_density quad_flat = Fin 1" "ctx_nsubtiles quad_flat = 2"
  "ctx_tiles quad_flat = [quad_tile]" "ctx_left quad_flat = Fin 0" "ctx_right quad_flat = Fin 1"
  "ctx_bottom quad_flat = Fin 0" "ctx_top quad_flat = Fin 0"
  by (simp_all add: quad_flat_def quad_ctx_def powf_def fl_sub_def clampf_def fl_gt_def)

lemma quad_first_ok: "0 \<le> level \<Longrightarrow> node_ok quad_flat (quad_first level)"
  by (simp add: node_ok_def quad_first_def quad_flat_fields)

lemma quad_flat_threshold:
  assumes "0 \<le> level"
  shows "tile_threshold quad_flat quad_tile level = PInf"
proof -
  from powf_pos [of "2 * level" 2] assms obtain e where "tile_depth quad_flat level = Fin e" "0 < e"
    by (auto simp: tile_depth_def quad_flat_fields)
  then show ?thesis
    by (simp add: tile_threshold_def quad_flat_fields quad_tile_def of_cint_def fl_sub_def)
qed

lemma quad_flat_first_child:
  assumes "0 \<le> level" "spawn_children quad_flat (quad_first level) quad_tile = Inr children"
  shows "quad_first (level + 1) \<in> set children"
proof -
  from tile_size_pos [OF quad_first_ok [OF assms(1)]] obtain s
    where s: "tile_size quad_flat level = Fin s" by (auto simp: quad_first_def)
  have "child_node 2 quad_tile (Fin 0) (Fin 0) (level + 1) (tile_scale quad_flat level) 0 0 = quad_first (level + 1)"
    by (simp add: child_node_def quad_first_def quad_tile_def tile_scale_def s quad_flat_fields of_cint_def)
  moreover have "children = concat (map (\<lambda>ty. map (child_node 2 quad_tile (Fin 0) (Fin 0) (level + 1)
      (tile_scale quad_flat level) ty) [0..1]) [0..1])"
    using assms(2) unfolding spawn_children_def by (auto simp: quad_first_def quad_flat_fields dest!: children_rows_eq)
  ultimately show ?thesis
    by (simp add: upto.simps)
qed

lemma quad_flat_descends:
  "0 \<le> level \<Longrightarrow> node_emits fuel quad_flat (quad_first level) \<noteq> Inr ps"
proof (induction fuel arbitrary: level ps)
  case 0
  then show ?case by simp
next
  case (Suc fuel)
  from tile_size_pos [OF quad_first_ok [OF Suc.prems]] obtain s
    where s: "tile_size quad_flat level = Fin s" "0 < s" by (auto simp: quad_first_def)
  have miss: "\<not> misses_viewport quad_flat (quad_first level)"
    using s by (simp add: misses_viewport_def quad_first_def quad_flat_fields fl_gt_def)
  have tile: "index (ctx_tiles quad_flat) (node_tile (quad_first level)) = Inr quad_tile"
    by (simp add: quad_flat_fields quad_first_def index_def)
  have deeper: "\<not> fl_le (tile_threshold quad_flat quad_tile (node_level (quad_first level))) (of_cint (tile_nsubpts quad_tile))"
    using quad_flat_threshold [OF Suc.prems] by (simp add: quad_first_def of_cint_def)
  show ?case
  proof
    assume r: "node_emits (Suc fuel) quad_flat (quad_first level) = Inr ps"
    then obtain children qs where ch: "spawn_children quad_flat (quad_first level) quad_tile = Inr children"
      and qs: "children_emits fuel quad_flat children = Inr qs"
      using miss tile deeper by (auto split: sum.splits)
    from children_emits_all [OF qs quad_flat_first_child [OF Suc.prems ch]]
    show False using Suc.IH [of "level + 1"] Suc.prems by auto
  qed
qed

text \<open>
  With \<open>bottom = top\<close> the magnification is \<^verbatim>\<open>powf(0, -2)\<close>, an infinity, and so is the
  threshold of every node: each node that meets the viewport has children, and one of them
  meets the viewport again. On the second scene no depth of recursion lets the call return.
\<close>

lemma quad_flat_never_returns:
  "par_bluenoise_generate fuel quad_ctx (Fin 1) (Fin (- 1 / 2)) (Fin (- 1 / 2)) (Fin (1 / 2)) (Fin (- 1 / 2)) \<noteq> Inr ctx'"
proof
  assume "par_bluenoise_generate fuel quad_ctx (Fin 1) (Fin (- 1 / 2)) (Fin (- 1 / 2)) (Fin (1 / 2)) (Fin (- 1 / 2)) = Inr ctx'"
  from generated_generate [OF this] obtain qs where "node_emits fuel quad_flat root_node = Inr qs"
    unfolding quad_flat_def by blast
  then show False
    using quad_flat_descends [of 0 fuel qs] by (simp add: quad_first_def root_node_def)
qed

subsection \<open>A viewport without width or height: what is returned\<close>





lemma root_point_passes_append [simp]:
  "root_point_passes (append_points ctx ps) = root_point_passes ctx"
  by (simp add: root_point_passes_def append_points_def sampled_at_least_def fun_eq_iff Let_def
      cong: option.case_cong)





subsection \<open>The ranks and the sort\<close>

lemma qsort_insert_mset: "mset (qsort_insert c v ws) = add_mset v (mset ws)"
  by (induction ws) simp_all

lemma qsort_mset: "mset (qsort c vs) = mset vs"
  by (induction vs) (simp_all add: qsort_insert_mset)

lemma qsort_set: "set (qsort c vs) = set vs"
  using qsort_mset [of c vs] by (metis set_mset_mset)

lemma qsort_length: "length (qsort c vs) = length vs"
  using qsort_mset [of c vs] by (metis size_mset)

lemma cmp_le_iff:
  "rank v \<noteq> NaN \<Longrightarrow> rank w \<noteq> NaN \<Longrightarrow> cmp v w \<le> 0 \<longleftrightarrow> fl_le (rank v) (rank w)"
  by (cases "rank v"; cases "rank w") (auto simp: cmp_def fl_gt_def)

lemma fl_le_total: "a \<noteq> NaN \<Longrightarrow> b \<noteq> NaN \<Longrightarrow> fl_le a b \<or> fl_le b a"
  by (cases a; cases b) auto

lemma qsort_insert_sorted:
  assumes "sorted_wrt (\<lambda>p q. fl_le (rank p) (rank q)) ws" "rank v \<noteq> NaN" "\<forall>w \<in> set ws. rank w \<noteq> NaN"
  shows "sorted_wrt (\<lambda>p q. fl_le (rank p) (rank q)) (qsort_insert cmp v ws)"
  using assms
proof (induction ws)
  case Nil
  then show ?case by simp
next
  case (Cons w ws)
  show ?case
  proof (cases "cmp v w \<le> 0")
    case True
    then have vw: "fl_le (rank v) (rank w)"
      using Cons.prems by (simp add: cmp_le_iff)
    then have "\<forall>u \<in> set ws. fl_le (rank v) (rank u)"
      using Cons.prems(1) by (auto intro: fl_le_trans)
    then show ?thesis
      using True vw Cons.prems(1) by simp
  next
    case False
    then have "fl_le (rank w) (rank v)"
      using Cons.prems fl_le_total [of "rank v" "rank w"] by (auto simp: cmp_le_iff)
    moreover have "set (qsort_insert cmp v ws) = insert v (set ws)"
      using qsort_insert_mset [of cmp v ws] by (metis set_mset_mset set_mset_add_mset_insert)
    ultimately show ?thesis
      using False Cons by auto
  qed
qed

lemma qsort_sorted:
  "\<forall>v \<in> set vs. rank v \<noteq> NaN \<Longrightarrow> sorted_wrt (\<lambda>p q. fl_le (rank p) (rank q)) (qsort cmp vs)"
  by (induction vs) (simp_all add: qsort_insert_sorted qsort_set)

lemma qsort_positions:
  assumes "\<forall>v \<in> set vs. rank v \<noteq> NaN" "i < length vs" "j < length vs"
    "fl_lt (rank (qsort cmp vs ! i)) (rank (qsort cmp vs ! j))"
  shows "i < j"
proof (rule ccontr)
  assume "\<not> i < j"
  then consider "i = j" | "j < i" by linarith
  then show False
  proof cases
    case 1
    then show ?thesis using assms(4) by (cases "rank (qsort cmp vs ! j)") auto
  next
    case 2
    then have "fl_le (rank (qsort cmp vs ! j)) (rank (qsort cmp vs ! i))"
      using qsort_sorted [OF assms(1)] assms(2) by (simp add: sorted_wrt_iff_nth_less qsort_length)
    then show ?thesis
      using assms(4) by (cases "rank (qsort cmp vs ! i)"; cases "rank (qsort cmp vs ! j)") auto
  qed
qed

declare rank_loop.simps [simp del]

lemma rank_loop_result:
  "0 \<le> i \<Longrightarrow> n \<le> int (length vecs) \<Longrightarrow>
   \<exists>out. rank_loop vecs n i = Inr out \<and> length out = length vecs \<and>
     (\<forall>k < length vecs. out ! k = (if i \<le> int k \<and> int k < n then (vecs ! k)\<lparr>rank := of_cint (int k)\<rparr> else vecs ! k))"
proof (induction "nat (n - i)" arbitrary: i vecs)
  case 0
  then show ?case by (subst rank_loop.simps) auto
next
  case (Suc m)
  then have lt: "i < n" and m: "m = nat (n - (i + 1))" by simp_all
  let ?v = "vecs[nat i := (vecs ! nat i)\<lparr>rank := of_cint i\<rparr>]"
  have ix: "index vecs i = Inr (vecs ! nat i)"
    using lt Suc.prems by (simp add: index_def)
  from Suc.hyps(1) [OF m, of ?v] Suc.prems lt obtain out where out: "rank_loop ?v n (i + 1) = Inr out"
    "length out = length vecs"
    "\<forall>k < length vecs. out ! k = (if i + 1 \<le> int k \<and> int k < n then (?v ! k)\<lparr>rank := of_cint (int k)\<rparr> else ?v ! k)"
    by auto
  have "rank_loop vecs n i = Inr out"
    using lt ix out(1) by (subst rank_loop.simps) simp
  moreover have "out ! k = (if i \<le> int k \<and> int k < n then (vecs ! k)\<lparr>rank := of_cint (int k)\<rparr> else vecs ! k)"
    if "k < length vecs" for k
  proof (cases "int k = i")
    case True
    then have k: "k = nat i" "int (nat i) = i" by simp_all
    have "out ! nat i = ?v ! nat i"
      using out(3) that k by auto
    then show ?thesis using that lt k by simp
  next
    case False
    then have "k \<noteq> nat i" using Suc.prems(1) by auto
    then show ?thesis using out(3) that False by auto
  qed
  ultimately show ?case using out(2) by blast
qed

lemma sort_by_rank_result:
  assumes "n \<le> length floats"
  shows "\<exists>ranked. par_bluenoise_sort_by_rank floats (int n) = Inr ranked \<and> length ranked = length floats \<and>
     (\<forall>k < n. ranked ! k = (qsort cmp (take n floats) ! k)\<lparr>rank := of_cint (int k)\<rparr>) \<and>
     (\<forall>k. n \<le> k \<and> k < length floats \<longrightarrow> ranked ! k = floats ! k)"
proof -
  let ?v = "qsort cmp (take n floats) @ drop n floats"
  have len: "length ?v = length floats"
    using assms by (simp add: qsort_length)
  have "int n \<le> int (length ?v)"
    using assms by (simp only: len of_nat_le_iff)
  from rank_loop_result [OF order_refl this] obtain out where out: "rank_loop ?v (int n) 0 = Inr out"
    "length out = length floats"
    "\<forall>k < length floats. out ! k = (if int k < int n then (?v ! k)\<lparr>rank := of_cint (int k)\<rparr> else ?v ! k)"
    unfolding len by auto
  have "par_bluenoise_sort_by_rank floats (int n) = Inr out"
    using assms out(1) by (simp add: par_bluenoise_sort_by_rank_def)
  moreover have "out ! k = (qsort cmp (take n floats) ! k)\<lparr>rank := of_cint (int k)\<rparr>" if "k < n" for k
    using out(3) that assms by (simp add: nth_append qsort_length)
  moreover have "out ! k = floats ! k" if "n \<le> k" "k < length floats" for k
    using out(3) that assms by (simp add: nth_append qsort_length)
  ultimately show ?thesis using out(2) by blast
qed

lemma root_emits_ranks:
  assumes "root_emits ctx = Inr ps" "p \<in> set ps"
  shows "fl_le (Fin 0) (rank p) \<and> fl_lt (rank p) (Fin 1)"
proof -
  from assms(1) obtain tile0 ntests where t0: "index (ctx_tiles ctx) 0 = Inr tile0"
    and nt: "float_to_int (mini (tile_npoints tile0) (fl_mul (ctx_mag ctx) (ctx_global_density ctx))) = Some ntests"
    and c: "collect (root_candidate ctx tile0 (root_factor ctx)) ntests 0 = Inr ps"
    by (auto simp: root_emits_def split: sum.splits option.splits)
  from collect_mem [OF c assms(2)] obtain k where k: "0 \<le> k" "k < ntests"
    "root_candidate ctx tile0 (root_factor ctx) k = Inr (Some p)"
    by blast
  from root_candidate_Some [OF k(3)] have r: "rank p = fl_mul (of_cint k) (root_factor ctx)"
    by auto
  from mini_bound [OF nt k(1,2)] show ?thesis
    unfolding r root_factor_def using k(1) by (intro root_rank_bounds) simp_all
qed

lemma tile_emits_ranks:
  assumes "tile_emits ctx node tile = Inr ps" "0 \<le> tile_npoints tile" "p \<in> set ps"
  shows "fl_le (of_cint (node_level node + 1)) (rank p) \<and> fl_lt (rank p) (of_cint (node_level node + 2))"
proof -
  let ?L = "node_level node"
  from assms(1) obtain ntests where
    nt: "float_to_int (mini (tile_nsubpts tile) (tile_threshold ctx tile ?L)) = Some ntests"
    and c: "collect (tile_candidate ctx tile (node_x node) (node_y node) ?L (tile_size ctx ?L)
                      (tile_factor ctx ?L)) ntests 0 = Inr ps"
    by (auto simp: tile_emits_def Let_def split: option.splits)
  from collect_mem [OF c assms(3)] obtain k where k: "0 \<le> k" "k < ntests"
    "tile_candidate ctx tile (node_x node) (node_y node) ?L (tile_size ctx ?L) (tile_factor ctx ?L) k
       = Inr (Some p)"
    by blast
  from tile_candidate_Some [OF k(3)]
  have r: "rank p = fl_add (of_cint (?L + 1)) (fl_mul (of_cint k) (tile_factor ctx ?L))"
    by auto
  from mini_bound [OF nt k(1,2)] have "fl_le (Fin (real_of_int k + 1)) (tile_threshold ctx tile ?L)"
    by simp
  then have th: "fl_le (Fin (real_of_int k + 1))
      (fl_sub (fl_mul (fl_div (ctx_mag ctx) (tile_depth ctx ?L)) (ctx_global_density ctx))
         (of_cint (tile_npoints tile)))"
    by (simp only: tile_threshold_def)
  show ?thesis
    unfolding r tile_factor_def
    by (rule tile_rank_bounds [OF th k(1) assms(2) tile_depth_cases])
qed

lemma fl_le_no_nan: "fl_le a b \<Longrightarrow> b \<noteq> NaN"
  by (cases a; cases b) auto

lemma node_emits_ranks:
  "node_emits fuel ctx node = Inr ps \<Longrightarrow> counts_not_negative ctx \<Longrightarrow> p \<in> set ps \<Longrightarrow> rank p \<noteq> NaN"
  "children_emits fuel ctx nodes = Inr ps \<Longrightarrow> counts_not_negative ctx \<Longrightarrow> p \<in> set ps \<Longrightarrow> rank p \<noteq> NaN"
proof (induction fuel ctx node and fuel ctx nodes arbitrary: ps and ps rule: node_emits_children_emits.induct)
  case (1 ctx node)
  then show ?case by simp
next
  case (2 fuel ctx node)
  show ?case
  proof (cases "misses_viewport ctx node")
    case True
    then show ?thesis using "2.prems" by simp
  next
    case miss: False
    then obtain tile ps1 where tile: "index (ctx_tiles ctx) (node_tile node) = Inr tile"
      and ps1: "tile_emits ctx node tile = Inr ps1"
      using "2.prems"(1) by (auto split: sum.splits)
    have "0 \<le> tile_npoints tile"
      using index_mem [OF tile] "2.prems"(2) by (simp add: counts_not_negative_def)
    from tile_emits_ranks [OF ps1 this] have here: "q \<in> set ps1 \<Longrightarrow> rank q \<noteq> NaN" for q
      by (blast dest: fl_le_no_nan)
    show ?thesis
    proof (cases "fl_le (tile_threshold ctx tile (node_level node)) (of_cint (tile_nsubpts tile))")
      case True
      then show ?thesis using miss tile ps1 "2.prems" here by auto
    next
      case deeper: False
      then obtain children qs where ch: "spawn_children ctx node tile = Inr children"
        and qs: "children_emits fuel ctx children = Inr qs" and ps: "ps = ps1 @ qs"
        using miss tile ps1 "2.prems"(1) by (auto split: sum.splits)
      note IH = "2.IH" [OF miss tile ps1 deeper ch qs "2.prems"(2)]
      show ?thesis
        using "2.prems"(3) ps here IH by auto
    qed
  qed
next
  case (3 fuel ctx)
  then show ?case by simp
next
  case (4 fuel ctx node rest)
  from "4.prems"(1) obtain ps1 qs where ps1: "node_emits fuel ctx node = Inr ps1"
    and qs: "children_emits fuel ctx rest = Inr qs" and ps: "ps = ps1 @ qs"
    by (auto split: sum.splits)
  show ?case
    using "4.IH"(1) [OF ps1 "4.prems"(2)] "4.IH"(2) [OF ps1 qs "4.prems"(2)] "4.prems"(3) ps
    by auto
qed

lemma generated_ranks:
  assumes "par_bluenoise_generate fuel ctx d l b r t = Inr result" "counts_not_negative ctx"
    "p \<in> set (generated result)"
  shows "rank p \<noteq> NaN"
proof -
  let ?c = "set_viewport ctx d l b r t"
  from generated_generate [OF assms(1)] obtain ps qs where ps: "root_emits ?c = Inr ps"
    and qs: "node_emits fuel ?c root_node = Inr qs" and out: "generated result = ps @ qs"
    by blast
  have "counts_not_negative ?c"
    using assms(2) by (simp add: counts_not_negative_def)
  from node_emits_ranks(1) [OF qs this] root_emits_ranks [OF ps] show ?thesis
    using assms(3) out by (auto dest: fl_le_no_nan)
qed

lemma generated_npoints:
  assumes "par_bluenoise_generate fuel ctx d l b r t = Inr result"
  shows "ctx_npoints result \<le> length (ctx_points result)"
proof -
  from assms obtain ps where "length ps \<le> length (ctx_points ctx)"
    "result = append_points (set_viewport ctx d l b r t) ps"
    unfolding generate_iff by blast
  then show ?thesis
    by (simp add: append_points_def)
qed

lemma rank_lt_trans:
  "fl_le a x \<and> fl_lt x b \<Longrightarrow> fl_le c y \<and> fl_lt y d \<Longrightarrow> fl_le b c \<Longrightarrow> fl_lt x y"
  by (blast intro: fl_lt_le_trans fl_le_trans)

text \<open>
  C10. The root pass gives every point it adds a rank from 0 up to, and not including, 1,
  and the pass over the candidates of a node at level \<open>L\<close>, whose tile has a count of
  points that is not negative, a rank from \<open>L + 1\<close> up to, and not including, \<open>L + 2\<close>.
  \<^verbatim>\<open>par_bluenoise_sort_by_rank\<close> on the result of a call of \<^verbatim>\<open>generate\<close>, for a tile set
  without negative counts, returns; the points it returns are a rearrangement \<open>order\<close> of
  the points generated, each with its position as the new rank; the ranks they had do
  not decrease along \<open>order\<close>; a point of the root pass stands before a point of any node,
  and a point of a node before a point of any deeper node. The elements beyond the count
  are left as they are. The statement needs no assumption on the sign of the
  magnification times the density: a pass adds no point when that product is not
  positive.
\<close>

theorem ranks_and_sort:
  assumes gen: "par_bluenoise_generate fuel ctx0 density vleft vbottom vright vtop = Inr result"
    and cnt: "counts_not_negative ctx0"
    and buf: "ctx_npoints ctx \<le> length (ctx_points ctx)" "ctx_npoints ctx1 \<le> length (ctx_points ctx1)"
      "ctx_npoints ctx2 \<le> length (ctx_points ctx2)"
    and root: "root_pass ctx = Inr ctx'"
    and one: "tile_pass ctx1 node1 tile1 = Inr ctx1'" "0 \<le> tile_npoints tile1" "0 \<le> node_level node1"
    and two: "tile_pass ctx2 node2 tile2 = Inr ctx2'" "0 \<le> tile_npoints tile2" "node_level node1 < node_level node2"
  shows "(\<forall>p \<in> set (new_points ctx ctx'). fl_le (Fin 0) (rank p) \<and> fl_lt (rank p) (Fin 1)) \<and>
         (\<forall>p \<in> set (new_points ctx1 ctx1').
            fl_le (of_cint (node_level node1 + 1)) (rank p) \<and> fl_lt (rank p) (of_cint (node_level node1 + 2))) \<and>
         (\<exists>order ranked.
            par_bluenoise_sort_by_rank (ctx_points result) (int (ctx_npoints result)) = Inr ranked \<and>
            mset order = mset (generated result) \<and>
            length ranked = length (ctx_points result) \<and>
            (\<forall>i < ctx_npoints result. ranked ! i = (order ! i)\<lparr>rank := of_cint (int i)\<rparr>) \<and>
            (\<forall>i. ctx_npoints result \<le> i \<and> i < length (ctx_points result) \<longrightarrow> ranked ! i = ctx_points result ! i) \<and>
            (\<forall>i j. i < j \<and> j < ctx_npoints result \<longrightarrow> fl_le (rank (order ! i)) (rank (order ! j))) \<and>
            (\<forall>i < ctx_npoints result. \<forall>j < ctx_npoints result.
               order ! i \<in> set (new_points ctx ctx') \<and> order ! j \<in> set (new_points ctx1 ctx1') \<longrightarrow> i < j) \<and>
            (\<forall>i < ctx_npoints result. \<forall>j < ctx_npoints result.
               order ! i \<in> set (new_points ctx1 ctx1') \<and> order ! j \<in> set (new_points ctx2 ctx2') \<longrightarrow> i < j))"
proof -
  let ?n = "ctx_npoints result"
  let ?order = "qsort cmp (generated result)"
  have f: "fits ctx []" "fits ctx1 []" "fits ctx2 []"
    using buf by (simp_all add: fits_def)
  note r0 = root_pass_ranks [OF root f(1)]
  note r1 = tile_pass_ranks [OF one(1) f(2) one(2)]
  note r2 = tile_pass_ranks [OF two(1) f(3) two(2)]
  have n: "?n \<le> length (ctx_points result)"
    using gen by (rule generated_npoints)
  then have len: "length (generated result) = ?n"
    by (simp add: generated_def)
  have nn: "\<forall>v \<in> set (generated result). rank v \<noteq> NaN"
    using generated_ranks [OF gen cnt] by blast
  from sort_by_rank_result [OF n] obtain ranked where
    s: "par_bluenoise_sort_by_rank (ctx_points result) (int ?n) = Inr ranked"
    "length ranked = length (ctx_points result)"
    "\<forall>k < ?n. ranked ! k = (?order ! k)\<lparr>rank := of_cint (int k)\<rparr>"
    "\<forall>k. ?n \<le> k \<and> k < length (ctx_points result) \<longrightarrow> ranked ! k = ctx_points result ! k"
    unfolding generated_def by blast
  have pos: "i < j" if "i < ?n" "j < ?n" "fl_lt (rank (?order ! i)) (rank (?order ! j))" for i j
    using qsort_positions [OF nn] that len by simp
  have b01: "fl_le (Fin 1) (of_cint (node_level node1 + 1))"
    using one(3) by (simp add: of_cint_def)
  have b12: "fl_le (of_cint (node_level node1 + 2)) (of_cint (node_level node2 + 1))"
    using two(3) by (simp add: of_cint_def)
  have "i < j" if "i < ?n" "j < ?n" "?order ! i \<in> set (new_points ctx ctx')"
    "?order ! j \<in> set (new_points ctx1 ctx1')" for i j
    using pos [OF that(1,2)] rank_lt_trans [OF r0 [OF that(3)] r1 [OF that(4)] b01] by simp
  moreover have "i < j" if "i < ?n" "j < ?n" "?order ! i \<in> set (new_points ctx1 ctx1')"
    "?order ! j \<in> set (new_points ctx2 ctx2')" for i j
    using pos [OF that(1,2)] rank_lt_trans [OF r1 [OF that(3)] r2 [OF that(4)] b12] by simp
  moreover have "mset ?order = mset (generated result)"
    by (rule qsort_mset)
  moreover have "fl_le (rank (?order ! i)) (rank (?order ! j))" if "i < j" "j < ?n" for i j
    using qsort_sorted [OF nn] that len by (simp add: sorted_wrt_iff_nth_less qsort_length)
  ultimately have "par_bluenoise_sort_by_rank (ctx_points result) (int ?n) = Inr ranked \<and>
      mset ?order = mset (generated result) \<and>
      length ranked = length (ctx_points result) \<and>
      (\<forall>i < ?n. ranked ! i = (?order ! i)\<lparr>rank := of_cint (int i)\<rparr>) \<and>
      (\<forall>i. ?n \<le> i \<and> i < length (ctx_points result) \<longrightarrow> ranked ! i = ctx_points result ! i) \<and>
      (\<forall>i j. i < j \<and> j < ?n \<longrightarrow> fl_le (rank (?order ! i)) (rank (?order ! j))) \<and>
      (\<forall>i < ?n. \<forall>j < ?n.
         ?order ! i \<in> set (new_points ctx ctx') \<and> ?order ! j \<in> set (new_points ctx1 ctx1') \<longrightarrow> i < j) \<and>
      (\<forall>i < ?n. \<forall>j < ?n.
         ?order ! i \<in> set (new_points ctx1 ctx1') \<and> ?order ! j \<in> set (new_points ctx2 ctx2') \<longrightarrow> i < j)"
    using s by blast
  then have "\<exists>order ranked.
      par_bluenoise_sort_by_rank (ctx_points result) (int ?n) = Inr ranked \<and>
      mset order = mset (generated result) \<and>
      length ranked = length (ctx_points result) \<and>
      (\<forall>i < ?n. ranked ! i = (order ! i)\<lparr>rank := of_cint (int i)\<rparr>) \<and>
      (\<forall>i. ?n \<le> i \<and> i < length (ctx_points result) \<longrightarrow> ranked ! i = ctx_points result ! i) \<and>
      (\<forall>i j. i < j \<and> j < ?n \<longrightarrow> fl_le (rank (order ! i)) (rank (order ! j))) \<and>
      (\<forall>i < ?n. \<forall>j < ?n.
         order ! i \<in> set (new_points ctx ctx') \<and> order ! j \<in> set (new_points ctx1 ctx1') \<longrightarrow> i < j) \<and>
      (\<forall>i < ?n. \<forall>j < ?n.
         order ! i \<in> set (new_points ctx1 ctx1') \<and> order ! j \<in> set (new_points ctx2 ctx2') \<longrightarrow> i < j)"
    by (intro exI)
  then show ?thesis
    using r0 r1 by blast
qed

lemma quad_band_run:
  "par_bluenoise_generate 3 quad_ctx (Fin 2) (Fin (- 1 / 2)) (Fin (- 1 / 4)) (Fin (1 / 2)) (Fin 0) =
     Inr (quad_ctx\<lparr>ctx_points :=
              [\<lparr>vx = Fin 0, vy = Fin 0, rank = Fin 0\<rparr>,
               \<lparr>vx = Fin (- (1 / 4)), vy = Fin (- (1 / 4)), rank = Fin 1\<rparr>,
               \<lparr>vx = Fin (- (1 / 8)), vy = Fin (- (1 / 8)), rank = Fin (17 / 8)\<rparr>,
               \<lparr>vx = Fin (- (7 / 16)), vy = Fin (- (3 / 16)), rank = Fin 3\<rparr>,
               \<lparr>vx = Fin (- (3 / 16)), vy = Fin (- (3 / 16)), rank = Fin 3\<rparr>,
               \<lparr>vx = Fin (3 / 8), vy = Fin (- (1 / 8)), rank = Fin (17 / 8)\<rparr>,
               \<lparr>vx = Fin (1 / 16), vy = Fin (- (3 / 16)), rank = Fin 3\<rparr>,
               \<lparr>vx = Fin (5 / 16), vy = Fin (- (3 / 16)), rank = Fin 3\<rparr>],
            ctx_global_density := Fin 2, ctx_left := Fin 0, ctx_bottom := Fin (1 / 4), ctx_right := Fin 1,
            ctx_top := Fin (1 / 2), ctx_npoints := 8, ctx_mag := Fin 16\<rparr>)"
  by (simp add: sampler_defs quad_defs root_loop.simps tile_loop.simps children_rows.simps
      children_row.simps numeral_3_eq_3 power2_eq_square)

lemma quad_band_passes:
  "root_pass quad_band = Inr (append_points quad_band [\<lparr>vx = Fin 0, vy = Fin 0, rank = Fin 0\<rparr>])"
  "tile_pass quad_band quad_right_child quad_tile =
     Inr (append_points quad_band [\<lparr>vx = Fin (3 / 8), vy = Fin (- (1 / 8)), rank = Fin (17 / 8)\<rparr>])"
  "tile_pass quad_band quad_grandchild quad_tile =
     Inr (append_points quad_band [\<lparr>vx = Fin (- (7 / 16)), vy = Fin (- (3 / 16)), rank = Fin 3\<rparr>])"
  by (simp_all add: quad_band_def quad_right_child_def quad_grandchild_def sampler_defs quad_defs
      append_points_def root_loop.simps tile_loop.simps power2_eq_square)

lemma quad_band_sort:
  "par_bluenoise_sort_by_rank
     [\<lparr>vx = Fin 0, vy = Fin 0, rank = Fin 0\<rparr>,
      \<lparr>vx = Fin (- (1 / 4)), vy = Fin (- (1 / 4)), rank = Fin 1\<rparr>,
      \<lparr>vx = Fin (- (1 / 8)), vy = Fin (- (1 / 8)), rank = Fin (17 / 8)\<rparr>,
      \<lparr>vx = Fin (- (7 / 16)), vy = Fin (- (3 / 16)), rank = Fin 3\<rparr>,
      \<lparr>vx = Fin (- (3 / 16)), vy = Fin (- (3 / 16)), rank = Fin 3\<rparr>,
      \<lparr>vx = Fin (3 / 8), vy = Fin (- (1 / 8)), rank = Fin (17 / 8)\<rparr>,
      \<lparr>vx = Fin (1 / 16), vy = Fin (- (3 / 16)), rank = Fin 3\<rparr>,
      \<lparr>vx = Fin (5 / 16), vy = Fin (- (3 / 16)), rank = Fin 3\<rparr>] 8 =
   Inr [\<lparr>vx = Fin 0, vy = Fin 0, rank = Fin 0\<rparr>,
        \<lparr>vx = Fin (- (1 / 4)), vy = Fin (- (1 / 4)), rank = Fin 1\<rparr>,
        \<lparr>vx = Fin (- (1 / 8)), vy = Fin (- (1 / 8)), rank = Fin 2\<rparr>,
        \<lparr>vx = Fin (3 / 8), vy = Fin (- (1 / 8)), rank = Fin 3\<rparr>,
        \<lparr>vx = Fin (- (7 / 16)), vy = Fin (- (3 / 16)), rank = Fin 4\<rparr>,
        \<lparr>vx = Fin (- (3 / 16)), vy = Fin (- (3 / 16)), rank = Fin 5\<rparr>,
        \<lparr>vx = Fin (1 / 16), vy = Fin (- (3 / 16)), rank = Fin 6\<rparr>,
        \<lparr>vx = Fin (5 / 16), vy = Fin (- (3 / 16)), rank = Fin 7\<rparr>]"
  by (simp add: par_bluenoise_sort_by_rank_def cmp_def fl_gt_def rank_loop.simps index_def of_cint_def)

theorem ranks_and_sort_witness:
  "map_sum id generated
     (par_bluenoise_generate 3 quad_ctx (Fin 2) (Fin (- 1 / 2)) (Fin (- 1 / 4)) (Fin (1 / 2)) (Fin 0)) =
     Inr [\<lparr>vx = Fin 0, vy = Fin 0, rank = Fin 0\<rparr>,
          \<lparr>vx = Fin (- (1 / 4)), vy = Fin (- (1 / 4)), rank = Fin 1\<rparr>,
          \<lparr>vx = Fin (- (1 / 8)), vy = Fin (- (1 / 8)), rank = Fin (17 / 8)\<rparr>,
          \<lparr>vx = Fin (- (7 / 16)), vy = Fin (- (3 / 16)), rank = Fin 3\<rparr>,
          \<lparr>vx = Fin (- (3 / 16)), vy = Fin (- (3 / 16)), rank = Fin 3\<rparr>,
          \<lparr>vx = Fin (3 / 8), vy = Fin (- (1 / 8)), rank = Fin (17 / 8)\<rparr>,
          \<lparr>vx = Fin (1 / 16), vy = Fin (- (3 / 16)), rank = Fin 3\<rparr>,
          \<lparr>vx = Fin (5 / 16), vy = Fin (- (3 / 16)), rank = Fin 3\<rparr>] \<and>
   counts_not_negative quad_ctx \<and>
   map_sum id (new_points quad_band) (root_pass quad_band) = Inr [\<lparr>vx = Fin 0, vy = Fin 0, rank = Fin 0\<rparr>] \<and>
   map_sum id (new_points quad_band) (tile_pass quad_band quad_right_child quad_tile) =
     Inr [\<lparr>vx = Fin (3 / 8), vy = Fin (- (1 / 8)), rank = Fin (17 / 8)\<rparr>] \<and>
   map_sum id (new_points quad_band) (tile_pass quad_band quad_grandchild quad_tile) =
     Inr [\<lparr>vx = Fin (- (7 / 16)), vy = Fin (- (3 / 16)), rank = Fin 3\<rparr>] \<and>
   node_level quad_right_child = 1 \<and> node_level quad_grandchild = 2 \<and> tile_npoints quad_tile = 1 \<and>
   fl_le (Fin 0) (Fin 0) \<and> fl_lt (Fin 0) (Fin 1) \<and>
   fl_le (of_cint (1 + 1)) (Fin (17 / 8)) \<and> fl_lt (Fin (17 / 8)) (of_cint (1 + 2)) \<and>
   par_bluenoise_sort_by_rank [\<lparr>vx = Fin 0, vy = Fin 0, rank = Fin 0\<rparr>,
          \<lparr>vx = Fin (- (1 / 4)), vy = Fin (- (1 / 4)), rank = Fin 1\<rparr>,
          \<lparr>vx = Fin (- (1 / 8)), vy = Fin (- (1 / 8)), rank = Fin (17 / 8)\<rparr>,
          \<lparr>vx = Fin (- (7 / 16)), vy = Fin (- (3 / 16)), rank = Fin 3\<rparr>,
          \<lparr>vx = Fin (- (3 / 16)), vy = Fin (- (3 / 16)), rank = Fin 3\<rparr>,
          \<lparr>vx = Fin (3 / 8), vy = Fin (- (1 / 8)), rank = Fin (17 / 8)\<rparr>,
          \<lparr>vx = Fin (1 / 16), vy = Fin (- (3 / 16)), rank = Fin 3\<rparr>,
          \<lparr>vx = Fin (5 / 16), vy = Fin (- (3 / 16)), rank = Fin 3\<rparr>] 8 = Inr [\<lparr>vx = Fin 0, vy = Fin 0, rank = Fin 0\<rparr>,
          \<lparr>vx = Fin (- (1 / 4)), vy = Fin (- (1 / 4)), rank = Fin 1\<rparr>,
          \<lparr>vx = Fin (- (1 / 8)), vy = Fin (- (1 / 8)), rank = Fin 2\<rparr>,
          \<lparr>vx = Fin (3 / 8), vy = Fin (- (1 / 8)), rank = Fin 3\<rparr>,
          \<lparr>vx = Fin (- (7 / 16)), vy = Fin (- (3 / 16)), rank = Fin 4\<rparr>,
          \<lparr>vx = Fin (- (3 / 16)), vy = Fin (- (3 / 16)), rank = Fin 5\<rparr>,
          \<lparr>vx = Fin (1 / 16), vy = Fin (- (3 / 16)), rank = Fin 6\<rparr>,
          \<lparr>vx = Fin (5 / 16), vy = Fin (- (3 / 16)), rank = Fin 7\<rparr>]"
proof -
  have n: "ctx_npoints quad_band \<le> length (ctx_points quad_band)"
    by (simp add: quad_band_def)
  have l: "0 \<le> tile_npoints quad_tile" "0 \<le> node_level quad_right_child"
    "node_level quad_right_child < node_level quad_grandchild"
    by (simp_all add: quad_defs quad_right_child_def quad_grandchild_def)
  have f: "fits quad_band [a]" for a
    by (simp add: quad_band_def quad_defs)
  have e: "map_sum id (new_points quad_band) (root_pass quad_band) = Inr [\<lparr>vx = Fin 0, vy = Fin 0, rank = Fin 0\<rparr>]"
    "map_sum id (new_points quad_band) (tile_pass quad_band quad_right_child quad_tile) =
       Inr [\<lparr>vx = Fin (3 / 8), vy = Fin (- (1 / 8)), rank = Fin (17 / 8)\<rparr>]"
    "map_sum id (new_points quad_band) (tile_pass quad_band quad_grandchild quad_tile) =
       Inr [\<lparr>vx = Fin (- (7 / 16)), vy = Fin (- (3 / 16)), rank = Fin 3\<rparr>]"
    by (simp_all add: quad_band_passes new_points_append_points f)
  have m: "node_level quad_right_child = 1" "node_level quad_grandchild = 2" "tile_npoints quad_tile = 1"
    by (simp_all add: quad_right_child_def quad_grandchild_def quad_tile_def)
  have g: "map_sum id generated
     (par_bluenoise_generate 3 quad_ctx (Fin 2) (Fin (- 1 / 2)) (Fin (- 1 / 4)) (Fin (1 / 2)) (Fin 0)) =
     Inr [\<lparr>vx = Fin 0, vy = Fin 0, rank = Fin 0\<rparr>,
          \<lparr>vx = Fin (- (1 / 4)), vy = Fin (- (1 / 4)), rank = Fin 1\<rparr>,
          \<lparr>vx = Fin (- (1 / 8)), vy = Fin (- (1 / 8)), rank = Fin (17 / 8)\<rparr>,
          \<lparr>vx = Fin (- (7 / 16)), vy = Fin (- (3 / 16)), rank = Fin 3\<rparr>,
          \<lparr>vx = Fin (- (3 / 16)), vy = Fin (- (3 / 16)), rank = Fin 3\<rparr>,
          \<lparr>vx = Fin (3 / 8), vy = Fin (- (1 / 8)), rank = Fin (17 / 8)\<rparr>,
          \<lparr>vx = Fin (1 / 16), vy = Fin (- (3 / 16)), rank = Fin 3\<rparr>,
          \<lparr>vx = Fin (5 / 16), vy = Fin (- (3 / 16)), rank = Fin 3\<rparr>]"
    unfolding quad_band_run by (simp add: generated_def)
  have b: "fl_le (Fin 0) (Fin 0) \<and> fl_lt (Fin 0) (Fin 1) \<and>
    fl_le (of_cint (1 + 1)) (Fin (17 / 8)) \<and> fl_lt (Fin (17 / 8)) (of_cint (1 + 2))"
    by (simp add: of_cint_def)
  show ?thesis
    using ranks_and_sort [OF quad_band_run quad_counts n n n quad_band_passes(1) quad_band_passes(2) l(1) l(2)
        quad_band_passes(3) l(1) l(3)]
      g quad_counts e m b quad_band_sort
    by simp
qed

end
